theory Spec2Isabelle
  imports Main "HOL-Library.AList" "HOL-Library.Multiset"
begin

section \<open>The scoreboard demo server (problem6/demo/server.js)\<close>

text \<open>
  The server keeps three in-memory \<^verbatim>\<open>Map\<close>s (\<^verbatim>\<open>users\<close>, \<^verbatim>\<open>actionTokens\<close>,
  \<^verbatim>\<open>rateLimits\<close>) and mutates them from synchronous Express handlers. The embedding
  passes the three maps as an explicit state record; every handler takes the state and
  the reading of the clock and returns its HTTP result, the socket.io events it emitted
  and the new state.

  Numbers are JavaScript numbers holding integers (scores, millisecond timestamps), far
  inside the exactly represented range, so they are modelled as \<open>int\<close>. A handler runs
  to completion without yielding; the model gives it one reading \<open>now\<close> of
  \<^verbatim>\<open>Date.now()\<close> for all the clock reads it makes.
\<close>

subsection \<open>Data\<close>

type_synonym userId = string
type_synonym actionId = string
type_synonym time = int

record user =
  user_id :: userId
  username :: string
  password :: string
  score :: int
  totalActions :: int

text \<open>
  A JSON web token is opaque to the server but for what \<^verbatim>\<open>jwt.verify\<close> gives back.
  \<open>Signed p\<close> is a token carrying payload \<open>p\<close> under a valid signature of
  \<^verbatim>\<open>JWT_SECRET\<close>; \<open>Malformed\<close> stands for everything else \<^verbatim>\<open>jwt.verify\<close>
  throws on (absent, not a token, wrong signature). The library stamps \<^verbatim>\<open>iat\<close> and
  \<^verbatim>\<open>exp\<close> in whole seconds.
\<close>

datatype claims =
    LoginClaims string
  | ActionClaims actionId string time string

record jwt_payload =
  p_userId :: userId
  p_claims :: claims
  jwt_iat :: int
  jwt_exp :: int

datatype jwt = Malformed | Signed jwt_payload

record stored_token =
  token :: jwt
  t_userId :: userId
  used :: bool
  createdAt :: time

record state =
  users :: "(userId \<times> user) list"
  actionTokens :: "actionId \<rightharpoonup> stored_token"
  rateLimits :: "userId \<rightharpoonup> time list"

record entry =
  rank :: int
  userId :: userId
  e_username :: string
  e_score :: int
  updatedAt :: time

text \<open>
  The \<^verbatim>\<open>proof\<close> member of the complete-action body. It defaults to \<^verbatim>\<open>{}\<close> when
  absent; \<^verbatim>\<open>null\<close> is not replaced by the default, so reading a member of it throws.
  \<open>ProofObject c\<close> is an object whose \<^verbatim>\<open>completionTime\<close> is absent (\<open>None\<close>) or an
  integer number of milliseconds.
\<close>

datatype proof_json = ProofAbsent | ProofNull | ProofObject "int option"

record complete_body =
  actionToken :: jwt
  actionId :: actionId
  completion_proof :: proof_json

datatype auth_header = NoHeader | NotBearer | Bearer jwt

datatype error =
    Unauthorized
  | InvalidToken
  | InvalidCredentials
  | InvalidActionToken
  | TokenUsedOrExpired
  | RateLimitExceeded int
  | SuspiciousCompletionTime
  | TypeError

record score_update =
  scoreIncrement :: int
  newScore :: int
  newRank :: int

record action_token_response =
  r_actionToken :: jwt
  r_actionId :: actionId
  expiresAt :: time

record login_ok =
  l_token :: jwt
  l_id :: userId
  l_username :: string
  l_score :: int

record my_score =
  m_userId :: userId
  m_username :: string
  m_score :: int
  m_rank :: int
  m_totalActions :: int

datatype event =
    LeaderboardUpdate "entry list" time
  | ScoreUpdate userId int int int int

subsection \<open>Array helpers\<close>

text \<open>
  \<^verbatim>\<open>Array.prototype.sort\<close> with a comparator is a stable sort: an element goes in
  front of the first one it does not compare greater than, taken from the right.
\<close>

fun insert_by :: "('a \<Rightarrow> 'a \<Rightarrow> int) \<Rightarrow> 'a \<Rightarrow> 'a list \<Rightarrow> 'a list" where
  "insert_by cmp x [] = [x]"
| "insert_by cmp x (y # ys) =
     (if cmp x y \<le> 0 then x # y # ys else y # insert_by cmp x ys)"

definition array_sort :: "('a \<Rightarrow> 'a \<Rightarrow> int) \<Rightarrow> 'a list \<Rightarrow> 'a list" where
  "array_sort cmp xs = foldr (insert_by cmp) xs []"

text \<open>\<^verbatim>\<open>Array.prototype.slice(start, end)\<close>: negative indices count from the end.\<close>

definition slice :: "int \<Rightarrow> int \<Rightarrow> 'a list \<Rightarrow> 'a list" where
  "slice start fin xs =
     (let len = int (length xs);
          k = (if start < 0 then max (len + start) 0 else min start len);
          final = (if fin < 0 then max (len + fin) 0 else min fin len)
      in take (nat (final - k)) (drop (nat k) xs))"

text \<open>\<^verbatim>\<open>Array.prototype.findIndex\<close>: the first index that satisfies, or -1.\<close>

fun findIndex :: "('a \<Rightarrow> bool) \<Rightarrow> 'a list \<Rightarrow> int" where
  "findIndex P [] = - 1"
| "findIndex P (x # xs) =
     (if P x then 0 else (let i = findIndex P xs in if i < 0 then - 1 else i + 1))"

subsection \<open>Helper functions of the server\<close>

text \<open>
  \<^verbatim>\<open>jwt.sign(payload, secret, {expiresIn})\<close> and \<^verbatim>\<open>jwt.verify\<close> of the jsonwebtoken
  library: \<^verbatim>\<open>iat = floor(now / 1000)\<close>, \<^verbatim>\<open>exp = iat + ttl\<close>, and verification fails
  once \<^verbatim>\<open>floor(now / 1000) >= exp\<close>.
\<close>

definition jwt_sign :: "time \<Rightarrow> userId \<Rightarrow> claims \<Rightarrow> int \<Rightarrow> jwt" where
  "jwt_sign now uid c ttl =
     Signed \<lparr>p_userId = uid, p_claims = c, jwt_iat = now div 1000, jwt_exp = now div 1000 + ttl\<rparr>"

definition generateToken :: "time \<Rightarrow> user \<Rightarrow> jwt" where
  "generateToken now u = jwt_sign now (user_id u) (LoginClaims (username u)) 3600"

definition verifyToken :: "time \<Rightarrow> jwt \<Rightarrow> jwt_payload option" where
  "verifyToken now t =
     (case t of
        Malformed \<Rightarrow> None
      | Signed p \<Rightarrow> if jwt_exp p \<le> now div 1000 then None else Some p)"

definition getLeaderboard :: "time \<Rightarrow> int \<Rightarrow> (userId \<times> user) list \<Rightarrow> entry list" where
  "getLeaderboard now limit us =
     map (\<lambda>(index, u).
            \<lparr>rank = int index + 1, userId = user_id u, e_username = username u,
             e_score = score u, updatedAt = now\<rparr>)
       (enumerate 0 (slice 0 limit (array_sort (\<lambda>a b. score b - score a) (map snd us))))"

definition checkRateLimit ::
  "time \<Rightarrow> userId \<Rightarrow> (userId \<rightharpoonup> time list) \<Rightarrow> bool \<times> (userId \<rightharpoonup> time list)" where
  "checkRateLimit now uid rl =
     (let userLimits = (case rl uid of None \<Rightarrow> [] | Some ts \<Rightarrow> ts);
          recentActions = filter (\<lambda>time. now - time < 60000) userLimits
      in if length recentActions \<ge> 10 then (False, rl)
         else (True, rl(uid \<mapsto> recentActions @ [now])))"

definition authenticate :: "time \<Rightarrow> auth_header \<Rightarrow> error + jwt_payload" where
  "authenticate now h =
     (case h of
        NoHeader \<Rightarrow> Inl Unauthorized
      | NotBearer \<Rightarrow> Inl Unauthorized
      | Bearer t \<Rightarrow> (case verifyToken now t of None \<Rightarrow> Inl InvalidToken | Some d \<Rightarrow> Inr d))"

subsection \<open>Routes\<close>

text \<open>\<^verbatim>\<open>POST /auth/login\<close>: the first user of that name, if the password is the user's.\<close>

definition login :: "time \<Rightarrow> string \<Rightarrow> string \<Rightarrow> state \<Rightarrow> error + login_ok" where
  "login now uname pw s =
     (case find (\<lambda>u. username u = uname) (map snd (users s)) of
        None \<Rightarrow> Inl InvalidCredentials
      | Some u \<Rightarrow>
          if password u \<noteq> pw then Inl InvalidCredentials
          else Inr \<lparr>l_token = generateToken now u, l_id = user_id u,
                    l_username = username u, l_score = score u\<rparr>)"

text \<open>
  \<^verbatim>\<open>POST /api/actions/request\<close>. The two \<^verbatim>\<open>crypto.randomBytes\<close> draws are arguments
  (\<open>aid\<close>, \<open>nonce\<close>).
\<close>

definition requestAction ::
  "time \<Rightarrow> userId \<Rightarrow> string \<Rightarrow> actionId \<Rightarrow> string \<Rightarrow> state \<Rightarrow> action_token_response \<times> state" where
  "requestAction now uid actionType aid nonce s =
     (let t = jwt_sign now uid (ActionClaims aid actionType now nonce) 300
      in (\<lparr>r_actionToken = t, r_actionId = aid, expiresAt = now + 300000\<rparr>,
          s\<lparr>actionTokens := (actionTokens s)(aid \<mapsto>
               \<lparr>token = t, t_userId = uid, used = False, createdAt = now\<rparr>)\<rparr>))"

text \<open>\<^verbatim>\<open>proof.completionTime || 10000\<close>: absent and zero are both falsy.\<close>

definition completionTime :: "int option \<Rightarrow> int" where
  "completionTime c = (case c of None \<Rightarrow> 10000 | Some n \<Rightarrow> if n = 0 then 10000 else n)"

text \<open>
  \<^verbatim>\<open>POST /api/actions/complete\<close>, after \<^verbatim>\<open>authenticate\<close> has put the caller's
  \<open>uid\<close> into the request. Each \<^verbatim>\<open>return res.status(...)\<close> is a branch; the two places
  where the handler would read a member of \<^verbatim>\<open>null\<close> or \<^verbatim>\<open>undefined\<close> end in
  \<open>TypeError\<close>, with the mutations made so far kept.
\<close>

definition completeAction ::
  "time \<Rightarrow> userId \<Rightarrow> complete_body \<Rightarrow> state \<Rightarrow> (error + score_update) \<times> event list \<times> state" where
  "completeAction now uid body s =
     (case verifyToken now (actionToken body) of
        None \<Rightarrow> (Inl InvalidActionToken, [], s)
      | Some decoded \<Rightarrow>
          if p_userId decoded \<noteq> uid then (Inl InvalidActionToken, [], s)
          else
            (case actionTokens s (actionId body) of
               None \<Rightarrow> (Inl TokenUsedOrExpired, [], s)
             | Some storedToken \<Rightarrow>
                 if used storedToken then (Inl TokenUsedOrExpired, [], s)
                 else
                   (case checkRateLimit now uid (rateLimits s) of
                      (False, _) \<Rightarrow> (Inl (RateLimitExceeded 60), [], s)
                    | (True, rl) \<Rightarrow>
                        (let s1 = s\<lparr>rateLimits := rl\<rparr> in
                         case completion_proof body of
                           ProofNull \<Rightarrow> (Inl TypeError, [], s1)
                         | pr \<Rightarrow>
                             (let ct = completionTime
                                         (case pr of ProofObject c \<Rightarrow> c | _ \<Rightarrow> None) in
                              if ct < 1000 \<or> ct > 300000
                              then (Inl SuspiciousCompletionTime, [], s1)
                              else
                                (let s2 = s1\<lparr>actionTokens := (actionTokens s1)(actionId body \<mapsto>
                                             storedToken\<lparr>used := True\<rparr>)\<rparr> in
                                 case map_of (users s2) uid of
                                   None \<Rightarrow> (Inl TypeError, [], s2)
                                 | Some u \<Rightarrow>
                                     (let scoreIncrement = 100;
                                          oldScore = score u;
                                          u' = u\<lparr>score := score u + scoreIncrement,
                                                 totalActions := totalActions u + 1\<rparr>;
                                          s3 = s2\<lparr>users := AList.update uid u' (users s2)\<rparr>;
                                          leaderboard = getLeaderboard now 100 (users s3);
                                          rankIndex = findIndex (\<lambda>e. userId e = uid) leaderboard;
                                          newRank = rankIndex + 1
                                      in (Inr \<lparr>scoreIncrement = scoreIncrement,
                                               newScore = score u', newRank = newRank\<rparr>,
                                          [LeaderboardUpdate (getLeaderboard now 10 (users s3)) now,
                                           ScoreUpdate uid oldScore (score u') scoreIncrement newRank],
                                          s3))))))))"

text \<open>\<^verbatim>\<open>GET /api/users/me/score\<close>, after \<^verbatim>\<open>authenticate\<close>.\<close>

definition getMyScore :: "time \<Rightarrow> userId \<Rightarrow> state \<Rightarrow> error + my_score" where
  "getMyScore now uid s =
     (let leaderboard = getLeaderboard now 100 (users s);
          rankIndex = findIndex (\<lambda>e. userId e = uid) leaderboard
      in case map_of (users s) uid of
           None \<Rightarrow> Inl TypeError
         | Some u \<Rightarrow>
             Inr \<lparr>m_userId = user_id u, m_username = username u, m_score = score u,
                  m_rank = rankIndex + 1, m_totalActions = totalActions u\<rparr>)"

text \<open>
  \<^verbatim>\<open>GET /api/leaderboard\<close>. The query's limit is what \<^verbatim>\<open>parseInt\<close> made of it
  (\<open>None\<close> for \<^verbatim>\<open>NaN\<close>); \<^verbatim>\<open>|| 10\<close> replaces \<^verbatim>\<open>NaN\<close> and 0 by 10.
\<close>

definition getLeaderboardRoute :: "time \<Rightarrow> int option \<Rightarrow> state \<Rightarrow> entry list \<times> time" where
  "getLeaderboardRoute now q s =
     (let limit = (case q of None \<Rightarrow> 10 | Some n \<Rightarrow> if n = 0 then 10 else n)
      in (getLeaderboard now limit (users s), now))"

text \<open>The complete-action route as mounted: \<^verbatim>\<open>authenticate\<close>, then the handler.\<close>

definition completeActionRoute ::
  "time \<Rightarrow> auth_header \<Rightarrow> complete_body \<Rightarrow> state \<Rightarrow> (error + score_update) \<times> event list \<times> state" where
  "completeActionRoute now h body s =
     (case authenticate now h of
        Inl e \<Rightarrow> (Inl e, [], s)
      | Inr decoded \<Rightarrow> completeAction now (p_userId decoded) body s)"

subsection \<open>Start-up and request sequences\<close>

text \<open>
  The ten demo users are created at start-up, in this order, with ids \<^verbatim>\<open>user-1\<close> to
  \<^verbatim>\<open>user-10\<close>; the two \<^verbatim>\<open>Math.random()\<close> draws per user are the arguments \<open>sc\<close>
  and \<open>ta\<close> (by index). No route adds or removes a user afterwards.
\<close>

fun decimal :: "nat \<Rightarrow> string" where
  "decimal n =
     (if n < 10 then [''0123456789'' ! n]
      else decimal (n div 10) @ [''0123456789'' ! (n mod 10)])"

definition demoNames :: "string list" where
  "demoNames =
     [''Alice'', ''Bob'', ''Charlie'', ''David'', ''Eve'', ''Frank'', ''Grace'', ''Henry'',
      ''Iris'', ''Jack'']"

definition initUsers :: "(nat \<Rightarrow> int) \<Rightarrow> (nat \<Rightarrow> int) \<Rightarrow> (userId \<times> user) list" where
  "initUsers sc ta =
     map (\<lambda>(index, name).
            (''user-'' @ decimal (index + 1),
             \<lparr>user_id = ''user-'' @ decimal (index + 1), username = name,
              password = ''demo123'', score = sc index, totalActions = ta index\<rparr>))
       (enumerate 0 demoNames)"

definition initState :: "(nat \<Rightarrow> int) \<Rightarrow> (nat \<Rightarrow> int) \<Rightarrow> state" where
  "initState sc ta = \<lparr>users = initUsers sc ta, actionTokens = Map.empty, rateLimits = Map.empty\<rparr>"

text \<open>
  A sequence of complete-action requests served one after the other: the results, the
  events emitted, the final state.
\<close>

fun completeAll ::
  "(time \<times> userId \<times> complete_body) list \<Rightarrow> state \<Rightarrow>
     (error + score_update) list \<times> event list \<times> state" where
  "completeAll [] s = ([], [], s)"
| "completeAll ((now, uid, body) # rs) s =
     (case completeAction now uid body s of
        (r, evs, s') \<Rightarrow>
          (case completeAll rs s' of (rs', evs', s'') \<Rightarrow> (r # rs', evs @ evs', s'')))"

text \<open>A sequence of rate checks of one user, one after the other.\<close>

fun checkAll ::
  "time list \<Rightarrow> userId \<Rightarrow> (userId \<rightharpoonup> time list) \<Rightarrow> bool list \<times> (userId \<rightharpoonup> time list)" where
  "checkAll [] uid rl = ([], rl)"
| "checkAll (t # ts) uid rl =
     (case checkRateLimit t uid rl of
        (ok, rl') \<Rightarrow> (case checkAll ts uid rl' of (oks, rl'') \<Rightarrow> (ok # oks, rl'')))"

text \<open>
  The time at which the handler last added to each user's score during such a sequence
  (the server itself keeps no such time).
\<close>

fun lastUpdated ::
  "(userId \<rightharpoonup> time) \<Rightarrow> (time \<times> userId \<times> complete_body) list \<Rightarrow> state \<Rightarrow> (userId \<rightharpoonup> time)" where
  "lastUpdated lu [] s = lu"
| "lastUpdated lu ((now, uid, body) # rs) s =
     (case completeAction now uid body s of
        (Inr ok, evs, s') \<Rightarrow> lastUpdated (lu(uid \<mapsto> now)) rs s'
      | (Inl e, evs, s') \<Rightarrow> lastUpdated lu rs s')"

subsection \<open>Observations used in the statements\<close>

definition window :: "(userId \<rightharpoonup> time list) \<Rightarrow> userId \<Rightarrow> time list" where
  "window rl uid = (case rl uid of None \<Rightarrow> [] | Some ts \<Rightarrow> ts)"

definition recentCount :: "time \<Rightarrow> userId \<Rightarrow> (userId \<rightharpoonup> time list) \<Rightarrow> nat" where
  "recentCount now uid rl = length (filter (\<lambda>t. now - t < 60000) (window rl uid))"

text \<open>The token checks of the handler pass: the JWT verifies and is the caller's, and the
  action id is stored and not used.\<close>

definition tokenAccepted :: "time \<Rightarrow> userId \<Rightarrow> complete_body \<Rightarrow> state \<Rightarrow> bool" where
  "tokenAccepted now uid body s =
     ((case verifyToken now (actionToken body) of None \<Rightarrow> False | Some d \<Rightarrow> p_userId d = uid) \<and>
      (case actionTokens s (actionId body) of None \<Rightarrow> False | Some st \<Rightarrow> \<not> used st))"

definition tokenUsed :: "actionId \<Rightarrow> state \<Rightarrow> bool" where
  "tokenUsed aid s = (case actionTokens s aid of None \<Rightarrow> False | Some st \<Rightarrow> used st)"

definition claimedTime :: "proof_json \<Rightarrow> int option" where
  "claimedTime pr = (case pr of ProofObject c \<Rightarrow> c | _ \<Rightarrow> None)"

definition timingAccepted :: "proof_json \<Rightarrow> bool" where
  "timingAccepted pr =
     (1000 \<le> completionTime (claimedTime pr) \<and> completionTime (claimedTime pr) \<le> 300000)"

definition markUsed :: "actionId \<Rightarrow> state \<Rightarrow> state" where
  "markUsed aid s =
     (case actionTokens s aid of
        None \<Rightarrow> s
      | Some st \<Rightarrow> s\<lparr>actionTokens := (actionTokens s)(aid \<mapsto> st\<lparr>used := True\<rparr>)\<rparr>)"

definition addScore :: "userId \<Rightarrow> (userId \<times> user) list \<Rightarrow> (userId \<times> user) list" where
  "addScore uid us =
     (case map_of us uid of
        None \<Rightarrow> us
      | Some u \<Rightarrow>
          AList.update uid (u\<lparr>score := score u + 100, totalActions := totalActions u + 1\<rparr>) us)"

text \<open>Every check of the complete-action handler passes.\<close>

definition allPass :: "time \<Rightarrow> userId \<Rightarrow> complete_body \<Rightarrow> state \<Rightarrow> bool" where
  "allPass now uid body s =
     (tokenAccepted now uid body s \<and> fst (checkRateLimit now uid (rateLimits s)) \<and>
      completion_proof body \<noteq> ProofNull \<and> timingAccepted (completion_proof body))"

definition isOk :: "error + score_update \<Rightarrow> bool" where
  "isOk r = (case r of Inl e \<Rightarrow> False | Inr ok \<Rightarrow> True)"

text \<open>The store as a JavaScript \<^verbatim>\<open>Map\<close> filled at start-up: keys are unique and each user
  is stored under its own id.\<close>

definition wellFormed :: "(userId \<times> user) list \<Rightarrow> bool" where
  "wellFormed us = (distinct (map fst us) \<and> list_all (\<lambda>(k, u). user_id u = k) us)"

text \<open>The full ordering \<open>getLeaderboard\<close> cuts its answer from.\<close>

definition ranking :: "(userId \<times> user) list \<Rightarrow> user list" where
  "ranking us = array_sort (\<lambda>a b. score b - score a) (map snd us)"

text \<open>
  One plus the number of users with a strictly greater score, or with an equal score and
  an earlier place in the store; 0 for an id that is not in the store.
\<close>

definition storeRank :: "userId \<Rightarrow> (userId \<times> user) list \<Rightarrow> int" where
  "storeRank uid us =
     (case map_of us uid of
        None \<Rightarrow> 0
      | Some u \<Rightarrow>
          1 + int (length (filter (\<lambda>v. score u < score v) (map snd us)))
            + int (length (filter (\<lambda>v. score v = score u)
                (takeWhile (\<lambda>v. user_id v \<noteq> uid) (map snd us)))))"

text \<open>The rank the two handlers compute: position in the top 100, plus one.\<close>

definition rankIn :: "time \<Rightarrow> userId \<Rightarrow> (userId \<times> user) list \<Rightarrow> int" where
  "rankIn now uid us = findIndex (\<lambda>e. userId e = uid) (getLeaderboard now 100 us) + 1"

subsection \<open>The ordering and the rank in the words of the specification\<close>

text \<open>
  Follows the specification's words, for comparison with \<open>getLeaderboard\<close>: an entry is
  a user id with a score and a last-updated time. One entry may stand before another when
  its score is greater, or when the scores are equal and it was not updated later (entries
  without a recorded update are not constrained).
\<close>

definition spec_before :: "userId \<times> int \<times> time option \<Rightarrow> userId \<times> int \<times> time option \<Rightarrow> bool" where
  "spec_before a b =
     (fst (snd a) > fst (snd b) \<or>
      (fst (snd a) = fst (snd b) \<and>
       (case (snd (snd a), snd (snd b)) of (Some t1, Some t2) \<Rightarrow> t1 \<le> t2 | _ \<Rightarrow> True)))"

definition spec_ordered :: "(userId \<times> int \<times> time option) list \<Rightarrow> bool" where
  "spec_ordered es = sorted_wrt spec_before es"

text \<open>Follows the specification's words: one plus the number of entries with a strictly
  greater score, or an equal score and an earlier update.\<close>

definition spec_rank :: "(userId \<times> int \<times> time option) list \<Rightarrow> userId \<Rightarrow> int option" where
  "spec_rank es uid =
     (case map_of es uid of
        None \<Rightarrow> None
      | Some (sc, t) \<Rightarrow>
          Some (1 + int (length (filter
            (\<lambda>(_, sc', t'). sc' > sc \<or>
               (sc' = sc \<and> (case (t', t) of (Some t1, Some t2) \<Rightarrow> t1 < t2 | _ \<Rightarrow> False))) es))))"

definition stamped :: "(userId \<rightharpoonup> time) \<Rightarrow> entry list \<Rightarrow> (userId \<times> int \<times> time option) list" where
  "stamped lu lb = map (\<lambda>e. (userId e, e_score e, lu (userId e))) lb"

text \<open>
  Follows the specification's words on delivery: two snapshots sent to the observers are
  at least one interval apart.
\<close>

fun snapshotTimes :: "event list \<Rightarrow> time list" where
  "snapshotTimes [] = []"
| "snapshotTimes (LeaderboardUpdate lb t # evs) = t # snapshotTimes evs"
| "snapshotTimes (ScoreUpdate uid old new inc r # evs) = snapshotTimes evs"

definition spec_coalesced :: "int \<Rightarrow> event list \<Rightarrow> bool" where
  "spec_coalesced interval evs = sorted_wrt (\<lambda>t1 t2. t1 + interval \<le> t2) (snapshotTimes evs)"

subsection \<open>A concrete run\<close>

text \<open>
  All draws at start-up are 0. Alice (\<^verbatim>\<open>user-1\<close>) and Bob (\<^verbatim>\<open>user-2\<close>) each request an
  action token at time 1000; the action ids and nonces stand for the random draws.
\<close>

definition demoState :: state where
  "demoState = initState (\<lambda>_. 0) (\<lambda>_. 0)"

definition issuedState :: state where
  "issuedState =
     snd (requestAction 1000 ''user-2'' ''COMPLETE_LEVEL'' ''b1b1b1b1b1b1b1b1b1b1b1b1b1b1b1b1'' ''0202020202020202''
       (snd (requestAction 1000 ''user-1'' ''COMPLETE_LEVEL'' ''a1a1a1a1a1a1a1a1a1a1a1a1a1a1a1a1'' ''0101010101010101'' demoState)))"

definition aliceBody :: "proof_json \<Rightarrow> complete_body" where
  "aliceBody pr =
     \<lparr>actionToken = r_actionToken (fst (requestAction 1000 ''user-1'' ''COMPLETE_LEVEL'' ''a1a1a1a1a1a1a1a1a1a1a1a1a1a1a1a1'' ''0101010101010101'' demoState)),
      actionId = ''a1a1a1a1a1a1a1a1a1a1a1a1a1a1a1a1'', completion_proof = pr\<rparr>"

definition bobBody :: "proof_json \<Rightarrow> complete_body" where
  "bobBody pr =
     \<lparr>actionToken = r_actionToken (fst (requestAction 1000 ''user-2'' ''COMPLETE_LEVEL'' ''b1b1b1b1b1b1b1b1b1b1b1b1b1b1b1b1'' ''0202020202020202'' demoState)),
      actionId = ''b1b1b1b1b1b1b1b1b1b1b1b1b1b1b1b1'', completion_proof = pr\<rparr>"

text \<open>
  Bob completes his action at time 10000 and Alice hers at 10400; both reach the score
  100, Bob first.
\<close>

definition tieRun :: "(time \<times> userId \<times> complete_body) list" where
  "tieRun =
     [(10000, ''user-2'', bobBody (ProofObject (Some 5000))),
      (10400, ''user-1'', aliceBody (ProofObject (Some 5000)))]"

definition tieState :: state where
  "tieState = snd (snd (completeAll tieRun issuedState))"

definition usedState :: state where
  "usedState = snd (snd (completeAction 2000 ''user-1'' (aliceBody (ProofObject (Some 5000))) issuedState))"

text \<open>Ten rate checks of Alice within ten milliseconds, starting with no window stored.\<close>

definition burstTimes :: "time list" where
  "burstTimes = [2000, 2001, 2002, 2003, 2004, 2005, 2006, 2007, 2008, 2009]"

definition filledWindow :: "userId \<rightharpoonup> time list" where
  "filledWindow = snd (checkAll burstTimes ''user-1'' Map.empty)"

text \<open>
  Alice logs in at time 1000 and, besides the action token above, requests a second one at
  time 1500.
\<close>

definition aliceLogin :: jwt where
  "aliceLogin = l_token (projr (login 1000 ''Alice'' ''demo123'' demoState))"


section \<open>Properties\<close>

subsection \<open>The rate limiter\<close>

lemma checkRateLimit_fst: "fst (checkRateLimit now uid rl) = (recentCount now uid rl < 10)"
  by (auto simp: checkRateLimit_def recentCount_def window_def Let_def)

lemma checkRateLimit_snd:
  "snd (checkRateLimit now uid rl) =
     (if recentCount now uid rl < 10
      then rl(uid \<mapsto> filter (\<lambda>t. now - t < 60000) (window rl uid) @ [now]) else rl)"
  by (auto simp: checkRateLimit_def recentCount_def window_def Let_def)

lemma filter_all_of_length:
  "length xs \<le> length (filter P xs) \<Longrightarrow> \<forall>x\<in>set xs. P x"
  by (metis length_filter_le le_antisym length_filter_less not_less)

lemma window_after_check:
  assumes "length (window rl uid) \<le> 10"
  shows "(\<forall>t\<in>set (window (snd (checkRateLimit now uid rl)) uid). now - t < 60000) \<and>
         length (window (snd (checkRateLimit now uid rl)) uid) \<le> 10"
proof (cases "recentCount now uid rl < 10")
  case True
  then show ?thesis
    by (auto simp: checkRateLimit_snd window_def recentCount_def)
next
  case False
  then have "length (window rl uid) \<le> length (filter (\<lambda>t. now - t < 60000) (window rl uid))"
    using assms by (simp add: recentCount_def)
  then have "\<forall>t\<in>set (window rl uid). now - t < 60000"
    by (rule filter_all_of_length)
  with False assms show ?thesis
    by (simp add: checkRateLimit_snd)
qed

lemma window_elapsed:
  assumes "\<forall>t\<in>set (window rl uid). t + 60000 \<le> now"
  shows "recentCount now uid rl = 0"
proof -
  have "filter (\<lambda>t. now - t < 60000) (window rl uid) = []"
    using assms by (auto simp: filter_empty_conv)
  then show ?thesis by (simp add: recentCount_def)
qed

subsection \<open>The complete-action handler, branch by branch\<close>

lemma completeAction_cases:
  "completeAction now uid body s =
    (if \<not> tokenAccepted now uid body s then
       (Inl (if (case verifyToken now (actionToken body) of None \<Rightarrow> False | Some d \<Rightarrow> p_userId d = uid)
             then TokenUsedOrExpired else InvalidActionToken), [], s)
     else if \<not> fst (checkRateLimit now uid (rateLimits s)) then (Inl (RateLimitExceeded 60), [], s)
     else if completion_proof body = ProofNull then
       (Inl TypeError, [], s\<lparr>rateLimits := snd (checkRateLimit now uid (rateLimits s))\<rparr>)
     else if \<not> timingAccepted (completion_proof body) then
       (Inl SuspiciousCompletionTime, [], s\<lparr>rateLimits := snd (checkRateLimit now uid (rateLimits s))\<rparr>)
     else completeAction now uid body s)"
  by (auto simp: completeAction_def tokenAccepted_def timingAccepted_def claimedTime_def Let_def
      split: option.splits prod.splits bool.splits proof_json.splits)

lemma completeAction_pass:
  assumes "tokenAccepted now uid body s" "fst (checkRateLimit now uid (rateLimits s))"
    "completion_proof body \<noteq> ProofNull" "timingAccepted (completion_proof body)"
  shows "completeAction now uid body s =
     (let s2 = markUsed (actionId body) (s\<lparr>rateLimits := snd (checkRateLimit now uid (rateLimits s))\<rparr>)
      in case map_of (users s) uid of
           None \<Rightarrow> (Inl TypeError, [], s2)
         | Some u \<Rightarrow>
            (let us = addScore uid (users s);
                 newRank = rankIn now uid us
             in (Inr \<lparr>scoreIncrement = 100, newScore = score u + 100, newRank = newRank\<rparr>,
                 [LeaderboardUpdate (getLeaderboard now 10 us) now,
                  ScoreUpdate uid (score u) (score u + 100) 100 newRank],
                 s2\<lparr>users := us\<rparr>)))"
  using assms
  by (auto simp: completeAction_def tokenAccepted_def timingAccepted_def claimedTime_def Let_def
      markUsed_def addScore_def rankIn_def
      split: option.splits prod.splits bool.splits proof_json.splits)

lemma completeAction_ok_iff:
  "isOk (fst (completeAction now uid body s)) \<longleftrightarrow>
     allPass now uid body s \<and> map_of (users s) uid \<noteq> None"
proof (cases "allPass now uid body s")
  case True
  then show ?thesis
    by (auto simp: allPass_def completeAction_pass Let_def isOk_def split: option.splits)
next
  case False
  then show ?thesis
    unfolding allPass_def by (subst completeAction_cases) (auto simp: isOk_def)
qed

lemma completeAction_users:
  "users (snd (snd (completeAction now uid body s))) =
     (if isOk (fst (completeAction now uid body s)) then addScore uid (users s) else users s)"
proof (cases "allPass now uid body s")
  case True
  then show ?thesis
    by (auto simp: allPass_def completeAction_pass Let_def markUsed_def isOk_def split: option.splits)
next
  case False
  then show ?thesis
    unfolding allPass_def by (subst (1 2) completeAction_cases) (auto simp: isOk_def)
qed

lemma completeAction_events:
  "fst (snd (completeAction now uid body s)) =
     (if isOk (fst (completeAction now uid body s))
      then [LeaderboardUpdate (getLeaderboard now 10 (addScore uid (users s))) now,
            ScoreUpdate uid (newScore (projr (fst (completeAction now uid body s))) - 100)
              (newScore (projr (fst (completeAction now uid body s)))) 100
              (rankIn now uid (addScore uid (users s)))]
      else [])"
proof (cases "allPass now uid body s")
  case True
  then show ?thesis
    by (auto simp: allPass_def completeAction_pass Let_def markUsed_def isOk_def split: option.splits)
next
  case False
  then show ?thesis
    unfolding allPass_def by (subst (1 2) completeAction_cases) (auto simp: isOk_def)
qed

lemma completeAction_marks_used:
  assumes "isOk (fst (completeAction now uid body s))"
  shows "tokenUsed (actionId body) (snd (snd (completeAction now uid body s)))"
proof -
  from assms have p: "allPass now uid body s" and u: "map_of (users s) uid \<noteq> None"
    by (simp_all add: completeAction_ok_iff)
  from p have "\<exists>st. actionTokens s (actionId body) = Some st"
    by (auto simp: allPass_def tokenAccepted_def split: option.splits)
  with p u show ?thesis
    by (auto simp: allPass_def completeAction_pass Let_def markUsed_def tokenUsed_def)
qed

lemma completeAction_keeps_used:
  assumes "tokenUsed aid s"
  shows "tokenUsed aid (snd (snd (completeAction now uid body s)))"
proof (cases "allPass now uid body s")
  case True
  with assms show ?thesis
    by (auto simp: allPass_def completeAction_pass Let_def markUsed_def tokenUsed_def
        split: option.splits)
next
  case False
  with assms show ?thesis
    unfolding allPass_def by (subst completeAction_cases) (auto simp: tokenUsed_def)
qed

lemma completeAction_used_rejected:
  assumes "tokenUsed (actionId body) s"
  shows "completeAction now uid body s =
     (Inl (if (case verifyToken now (actionToken body) of None \<Rightarrow> False | Some d \<Rightarrow> p_userId d = uid)
           then TokenUsedOrExpired else InvalidActionToken), [], s)"
proof -
  from assms have "\<not> tokenAccepted now uid body s"
    by (auto simp: tokenUsed_def tokenAccepted_def split: option.splits)
  then show ?thesis
    by (subst completeAction_cases) simp
qed

lemma completeAction_token_fail:
  "\<not> tokenAccepted now uid body s \<Longrightarrow>
   completeAction now uid body s =
     (Inl (if (case verifyToken now (actionToken body) of None \<Rightarrow> False | Some d \<Rightarrow> p_userId d = uid)
           then TokenUsedOrExpired else InvalidActionToken), [], s)"
  by (subst completeAction_cases) simp

lemma completeAction_rate_fail:
  "tokenAccepted now uid body s \<Longrightarrow> \<not> fst (checkRateLimit now uid (rateLimits s)) \<Longrightarrow>
   completeAction now uid body s = (Inl (RateLimitExceeded 60), [], s)"
  by (subst completeAction_cases) simp

lemma completeAction_null_proof:
  "tokenAccepted now uid body s \<Longrightarrow> fst (checkRateLimit now uid (rateLimits s)) \<Longrightarrow>
   completion_proof body = ProofNull \<Longrightarrow>
   completeAction now uid body s =
     (Inl TypeError, [], s\<lparr>rateLimits := snd (checkRateLimit now uid (rateLimits s))\<rparr>)"
  by (subst completeAction_cases) simp

lemma completeAction_timing_fail:
  "tokenAccepted now uid body s \<Longrightarrow> fst (checkRateLimit now uid (rateLimits s)) \<Longrightarrow>
   completion_proof body \<noteq> ProofNull \<Longrightarrow> \<not> timingAccepted (completion_proof body) \<Longrightarrow>
   completeAction now uid body s =
     (Inl SuspiciousCompletionTime, [], s\<lparr>rateLimits := snd (checkRateLimit now uid (rateLimits s))\<rparr>)"
  by (subst completeAction_cases) simp

text \<open>A request that does not authenticate changes nothing and emits nothing.\<close>

lemma completeActionRoute_unauthenticated:
  "authenticate now h = Inl e \<Longrightarrow> completeActionRoute now h body s = (Inl e, [], s)"
  by (simp add: completeActionRoute_def)

lemma completeActionRoute_authenticated:
  "authenticate now h = Inr d \<Longrightarrow>
   completeActionRoute now h body s = completeAction now (p_userId d) body s"
  by (simp add: completeActionRoute_def)

subsection \<open>The concrete run, evaluated\<close>

lemmas run_defs = issuedState_def demoState_def initState_def initUsers_def demoNames_def
  requestAction_def jwt_sign_def aliceBody_def bobBody_def completeAction_def verifyToken_def
  checkRateLimit_def completionTime_def Let_def array_sort_def slice_def enumerate_eq_zip
  getLeaderboard_def

lemma issued_alice_accepted:
  "tokenAccepted 2000 ''user-1'' (aliceBody pr) issuedState"
  by (simp add: tokenAccepted_def run_defs)

lemma alice_fast_rejected:
  "completeAction 2000 ''user-1'' (aliceBody (ProofObject (Some 100))) issuedState =
     (Inl SuspiciousCompletionTime, [], issuedState\<lparr>rateLimits := [''user-1'' \<mapsto> [2000]]\<rparr>)"
  by (simp add: run_defs)

lemma alice_ok:
  "fst (completeAction 2000 ''user-1'' (aliceBody (ProofObject (Some 5000))) issuedState) =
     Inr \<lparr>scoreIncrement = 100, newScore = 100, newRank = 1\<rparr>"
  by (simp add: run_defs)

lemma users_issued: "users issuedState = users demoState"
  by (simp add: issuedState_def requestAction_def Let_def)

lemma alice_users_changed:
  "users (snd (snd (completeAction 2000 ''user-1'' (aliceBody (ProofObject (Some 5000))) issuedState)))
     \<noteq> users issuedState"
proof -
  have "isOk (fst (completeAction 2000 ''user-1'' (aliceBody (ProofObject (Some 5000))) issuedState))"
    by (simp add: alice_ok isOk_def)
  then have "users (snd (snd (completeAction 2000 ''user-1'' (aliceBody (ProofObject (Some 5000))) issuedState)))
    = addScore ''user-1'' (users issuedState)"
    by (simp add: completeAction_users)
  also have "\<dots> \<noteq> users issuedState"
    by (simp add: addScore_def users_issued demoState_def initState_def initUsers_def demoNames_def
        enumerate_eq_zip)
  finally show ?thesis .
qed

lemma used_alice: "tokenUsed ''a1a1a1a1a1a1a1a1a1a1a1a1a1a1a1a1'' usedState"
proof -
  have "isOk (fst (completeAction 2000 ''user-1'' (aliceBody (ProofObject (Some 5000))) issuedState))"
    by (simp add: alice_ok isOk_def)
  then have "tokenUsed (actionId (aliceBody (ProofObject (Some 5000)))) usedState"
    unfolding usedState_def by (rule completeAction_marks_used)
  then show ?thesis by (simp add: aliceBody_def)
qed

subsection \<open>Claims about the complete-action handler\<close>

text \<open>
  C1. A complete-action request changes a score only when the token checks, the rate
  limit and the completion-time check have all passed, and then the token is marked used
  in the same step; a request failing the token checks, the rate limit or the timing check
  is answered with the error of that check and leaves every user record as it was.
\<close>

theorem score_mutation_only_after_checks:
  "(isOk (fst (completeAction now uid body s)) \<longleftrightarrow>
      allPass now uid body s \<and> map_of (users s) uid \<noteq> None) \<and>
   (\<not> tokenAccepted now uid body s \<longrightarrow>
      fst (completeAction now uid body s) = Inl InvalidActionToken \<or>
      fst (completeAction now uid body s) = Inl TokenUsedOrExpired) \<and>
   (tokenAccepted now uid body s \<and> \<not> fst (checkRateLimit now uid (rateLimits s)) \<longrightarrow>
      fst (completeAction now uid body s) = Inl (RateLimitExceeded 60)) \<and>
   (tokenAccepted now uid body s \<and> fst (checkRateLimit now uid (rateLimits s)) \<and>
    completion_proof body \<noteq> ProofNull \<and> \<not> timingAccepted (completion_proof body) \<longrightarrow>
      fst (completeAction now uid body s) = Inl SuspiciousCompletionTime) \<and>
   (\<not> isOk (fst (completeAction now uid body s)) \<longrightarrow>
      users (snd (snd (completeAction now uid body s))) = users s) \<and>
   (users (snd (snd (completeAction now uid body s))) \<noteq> users s \<longrightarrow>
      allPass now uid body s \<and> tokenUsed (actionId body) (snd (snd (completeAction now uid body s))))"
proof (intro conjI impI)
  show "isOk (fst (completeAction now uid body s)) \<longleftrightarrow>
      allPass now uid body s \<and> map_of (users s) uid \<noteq> None"
    by (rule completeAction_ok_iff)
next
  assume "\<not> tokenAccepted now uid body s"
  then show "fst (completeAction now uid body s) = Inl InvalidActionToken \<or>
      fst (completeAction now uid body s) = Inl TokenUsedOrExpired"
    by (simp add: completeAction_token_fail)
next
  assume "tokenAccepted now uid body s \<and> \<not> fst (checkRateLimit now uid (rateLimits s))"
  then show "fst (completeAction now uid body s) = Inl (RateLimitExceeded 60)"
    by (simp add: completeAction_rate_fail)
next
  assume "tokenAccepted now uid body s \<and> fst (checkRateLimit now uid (rateLimits s)) \<and>
    completion_proof body \<noteq> ProofNull \<and> \<not> timingAccepted (completion_proof body)"
  then show "fst (completeAction now uid body s) = Inl SuspiciousCompletionTime"
    by (simp add: completeAction_timing_fail)
next
  assume "\<not> isOk (fst (completeAction now uid body s))"
  then show "users (snd (snd (completeAction now uid body s))) = users s"
    by (simp add: completeAction_users)
next
  assume a: "users (snd (snd (completeAction now uid body s))) \<noteq> users s"
  then have ok: "isOk (fst (completeAction now uid body s))"
    by (simp add: completeAction_users split: if_splits)
  then show "allPass now uid body s"
    by (simp add: completeAction_ok_iff)
  from ok show "tokenUsed (actionId body) (snd (snd (completeAction now uid body s)))"
    by (rule completeAction_marks_used)
qed

theorem score_mutation_only_after_checks_witness:
  "\<not> isOk (fst (completeAction 2000 ''user-1'' (aliceBody (ProofObject (Some 100))) issuedState)) \<and>
   users (snd (snd (completeAction 2000 ''user-1'' (aliceBody (ProofObject (Some 100))) issuedState)))
     = users issuedState \<and>
   users (snd (snd (completeAction 2000 ''user-1'' (aliceBody (ProofObject (Some 5000))) issuedState)))
     \<noteq> users issuedState \<and>
   tokenUsed (actionId (aliceBody (ProofObject (Some 5000))))
     (snd (snd (completeAction 2000 ''user-1'' (aliceBody (ProofObject (Some 5000))) issuedState)))"
proof -
  have n: "\<not> isOk (fst (completeAction 2000 ''user-1'' (aliceBody (ProofObject (Some 100))) issuedState))"
    by (simp add: alice_fast_rejected isOk_def)
  note fast = score_mutation_only_after_checks
    [of 2000 "''user-1''" "aliceBody (ProofObject (Some 100))" issuedState]
  note slow = score_mutation_only_after_checks
    [of 2000 "''user-1''" "aliceBody (ProofObject (Some 5000))" issuedState]
  from fast n have a: "users (snd (snd (completeAction 2000 ''user-1''
      (aliceBody (ProofObject (Some 100))) issuedState))) = users issuedState"
    by blast
  from slow alice_users_changed have b: "tokenUsed (actionId (aliceBody (ProofObject (Some 5000))))
     (snd (snd (completeAction 2000 ''user-1'' (aliceBody (ProofObject (Some 5000))) issuedState)))"
    by blast
  from n a alice_users_changed b show ?thesis by blast
qed

text \<open>
  C2, as the handler behaves: when the token checks pass and the request is then rejected
  by the rate limit or by the completion-time check, the handler returns before the token
  is marked used. The stored tokens are unchanged, the token is still accepted, and the
  user records are unchanged.
\<close>

theorem anti_cheat_failure_keeps_token:
  assumes "tokenAccepted now uid body s"
    and "\<not> fst (checkRateLimit now uid (rateLimits s)) \<or>
         (completion_proof body \<noteq> ProofNull \<and> \<not> timingAccepted (completion_proof body))"
  shows "(fst (completeAction now uid body s) = Inl (RateLimitExceeded 60) \<or>
          fst (completeAction now uid body s) = Inl SuspiciousCompletionTime) \<and>
         users (snd (snd (completeAction now uid body s))) = users s \<and>
         actionTokens (snd (snd (completeAction now uid body s))) = actionTokens s \<and>
         \<not> tokenUsed (actionId body) (snd (snd (completeAction now uid body s))) \<and>
         tokenAccepted now uid body (snd (snd (completeAction now uid body s)))"
proof -
  have nu: "\<not> tokenUsed (actionId body) s"
    using assms(1) by (auto simp: tokenAccepted_def tokenUsed_def split: option.splits)
  show ?thesis
  proof (cases "fst (checkRateLimit now uid (rateLimits s))")
    case False
    with assms(1) have "completeAction now uid body s = (Inl (RateLimitExceeded 60), [], s)"
      by (simp add: completeAction_rate_fail)
    with assms(1) nu show ?thesis by simp
  next
    case True
    with assms have "completeAction now uid body s =
        (Inl SuspiciousCompletionTime, [], s\<lparr>rateLimits := snd (checkRateLimit now uid (rateLimits s))\<rparr>)"
      by (simp add: completeAction_timing_fail)
    with assms(1) nu show ?thesis by (simp add: tokenAccepted_def tokenUsed_def)
  qed
qed

theorem anti_cheat_failure_keeps_token_witness:
  "tokenAccepted 2000 ''user-1'' (aliceBody (ProofObject (Some 100))) issuedState \<and>
   \<not> timingAccepted (ProofObject (Some 100)) \<and>
   fst (completeAction 2000 ''user-1'' (aliceBody (ProofObject (Some 100))) issuedState)
     = Inl SuspiciousCompletionTime \<and>
   actionTokens (snd (snd (completeAction 2000 ''user-1'' (aliceBody (ProofObject (Some 100))) issuedState)))
     = actionTokens issuedState"
proof -
  have t: "\<not> timingAccepted (ProofObject (Some 100))"
    by (simp add: timingAccepted_def claimedTime_def completionTime_def)
  have p: "completion_proof (aliceBody (ProofObject (Some 100))) = ProofObject (Some 100)"
    by (simp add: aliceBody_def)
  have h: "\<not> fst (checkRateLimit 2000 ''user-1'' (rateLimits issuedState)) \<or>
         (completion_proof (aliceBody (ProofObject (Some 100))) \<noteq> ProofNull \<and>
          \<not> timingAccepted (completion_proof (aliceBody (ProofObject (Some 100)))))"
    using t p by simp
  show ?thesis
    using t anti_cheat_failure_keeps_token [OF issued_alice_accepted h]
    by (simp add: issued_alice_accepted alice_fast_rejected)
qed

text \<open>
  C2 as the specification states it fails: Alice's unused, unexpired token is presented
  with a completion time of 100 ms and rejected as suspicious; the token is not marked
  used, and presenting it again with a completion time of 5000 ms succeeds.
\<close>

theorem anti_cheat_failure_consumes_token_counterexample:
  "tokenAccepted 2000 ''user-1'' (aliceBody (ProofObject (Some 100))) issuedState \<and>
   fst (completeAction 2000 ''user-1'' (aliceBody (ProofObject (Some 100))) issuedState)
     = Inl SuspiciousCompletionTime \<and>
   \<not> tokenUsed ''a1a1a1a1a1a1a1a1a1a1a1a1a1a1a1a1''
       (snd (snd (completeAction 2000 ''user-1'' (aliceBody (ProofObject (Some 100))) issuedState))) \<and>
   fst (completeAction 3000 ''user-1'' (aliceBody (ProofObject (Some 5000)))
       (snd (snd (completeAction 2000 ''user-1'' (aliceBody (ProofObject (Some 100))) issuedState))))
     = Inr \<lparr>scoreIncrement = 100, newScore = 100, newRank = 1\<rparr>"
proof -
  have a: "\<not> tokenUsed ''a1a1a1a1a1a1a1a1a1a1a1a1a1a1a1a1'' (issuedState\<lparr>rateLimits := [''user-1'' \<mapsto> [2000]]\<rparr>)"
    by (simp add: tokenUsed_def run_defs)
  have b: "fst (completeAction 3000 ''user-1'' (aliceBody (ProofObject (Some 5000)))
       (issuedState\<lparr>rateLimits := [''user-1'' \<mapsto> [2000]]\<rparr>))
     = Inr \<lparr>scoreIncrement = 100, newScore = 100, newRank = 1\<rparr>"
    by (simp add: run_defs)
  show ?thesis
    using a b by (simp add: issued_alice_accepted alice_fast_rejected)
qed

text \<open>
  Expiry is checked first, by \<^verbatim>\<open>jwt.verify\<close>, and in whole seconds.
\<close>

lemma verifyToken_expired:
  "1000 * jwt_exp p < now \<Longrightarrow> verifyToken now (Signed p) = None"
  by (simp add: verifyToken_def)

text \<open>
  A request presenting a JWT after that JWT's expiry (its \<^verbatim>\<open>exp\<close>, or the
  \<^verbatim>\<open>expiresAt\<close> returned when it was issued) is rejected by the token verification,
  the first check of the handler, in every state: the used flag of a stored record plays
  no part.
\<close>

lemma expired_jwt_rejected:
  "(actionToken body = Signed p \<and> 1000 * jwt_exp p < now \<longrightarrow>
      completeAction now uid body s = (Inl InvalidActionToken, [], s)) \<and>
   (actionToken body = r_actionToken (fst (requestAction t0 u ty aid n s0)) \<and>
    expiresAt (fst (requestAction t0 u ty aid n s0)) < now \<longrightarrow>
      completeAction now uid body s = (Inl InvalidActionToken, [], s))"
proof (intro conjI impI)
  assume a: "actionToken body = Signed p \<and> 1000 * jwt_exp p < now"
  then have "verifyToken now (actionToken body) = None"
    by (simp add: verifyToken_expired)
  then show "completeAction now uid body s = (Inl InvalidActionToken, [], s)"
    by (simp add: completeAction_token_fail tokenAccepted_def)
next
  assume a: "actionToken body = r_actionToken (fst (requestAction t0 u ty aid n s0)) \<and>
    expiresAt (fst (requestAction t0 u ty aid n s0)) < now"
  then have "t0 + 300000 < now"
    by (simp add: requestAction_def Let_def)
  then have "t0 div 1000 + 300 \<le> now div 1000"
    by linarith
  with a have "verifyToken now (actionToken body) = None"
    by (simp add: requestAction_def Let_def jwt_sign_def verifyToken_def)
  then show "completeAction now uid body s = (Inl InvalidActionToken, [], s)"
    by (simp add: completeAction_token_fail tokenAccepted_def)
qed

lemma alice_token_payload:
  "actionToken (aliceBody pr) = Signed \<lparr>p_userId = ''user-1'',
      p_claims = ActionClaims ''a1a1a1a1a1a1a1a1a1a1a1a1a1a1a1a1'' ''COMPLETE_LEVEL'' 1000 ''0101010101010101'', jwt_iat = 1, jwt_exp = 301\<rparr>"
  by (simp add: aliceBody_def requestAction_def jwt_sign_def Let_def)

text \<open>
  The stored record that carries the used flag has no expiry of its own: the handler
  reads neither its \<^verbatim>\<open>createdAt\<close> nor its \<^verbatim>\<open>token\<close>, and never compares the
  \<^verbatim>\<open>actionId\<close> inside the presented JWT with the one in the body. Any JWT of the caller
  that still verifies opens it, the login JWT included.
\<close>

lemma alice_logs_in:
  "login 1000 ''Alice'' ''demo123'' demoState =
     Inr \<lparr>l_token = aliceLogin, l_id = ''user-1'', l_username = ''Alice'', l_score = 0\<rparr>"
  by (simp add: aliceLogin_def login_def demoState_def initState_def initUsers_def demoNames_def
      enumerate_eq_zip)

lemma aliceLogin_payload:
  "aliceLogin = Signed \<lparr>p_userId = ''user-1'', p_claims = LoginClaims ''Alice'',
      jwt_iat = 1, jwt_exp = 3601\<rparr>"
  by (simp add: aliceLogin_def login_def demoState_def initState_def initUsers_def demoNames_def
      enumerate_eq_zip generateToken_def jwt_sign_def)

lemma aliceLogin_authenticates:
  "authenticate 400000 (Bearer aliceLogin) = Inr \<lparr>p_userId = ''user-1'',
      p_claims = LoginClaims ''Alice'', jwt_iat = 1, jwt_exp = 3601\<rparr>"
  by (simp add: authenticate_def verifyToken_def aliceLogin_payload)

lemma late_consume_body_accepted:
  "tokenAccepted 400000 ''user-1''
     \<lparr>actionToken = aliceLogin, actionId = ''a1a1a1a1a1a1a1a1a1a1a1a1a1a1a1a1'',
      completion_proof = ProofObject (Some 5000)\<rparr> issuedState"
  by (simp add: tokenAccepted_def verifyToken_def aliceLogin_payload issuedState_def
      requestAction_def Let_def)

lemma late_consume_result:
  "fst (completeAction 400000 ''user-1''
     \<lparr>actionToken = aliceLogin, actionId = ''a1a1a1a1a1a1a1a1a1a1a1a1a1a1a1a1'',
      completion_proof = ProofObject (Some 5000)\<rparr> issuedState) =
     Inr \<lparr>scoreIncrement = 100, newScore = 100, newRank = 1\<rparr>"
  by (simp add: aliceLogin_payload run_defs)

text \<open>
  C4. Alice's action token, issued at time 1000 under the id \<^verbatim>\<open>a1a1...\<close>, expires at
  301000, and at time 400000 its own JWT no longer verifies. At that time Alice posts her
  login JWT as \<^verbatim>\<open>actionToken\<close> together with that action id: the request is not
  answered with an expiry error; it succeeds, the score is raised by 100 and the record is
  marked used.
\<close>

theorem stored_token_consumed_after_expiry:
  "expiresAt (fst (requestAction 1000 ''user-1'' ''COMPLETE_LEVEL''
      ''a1a1a1a1a1a1a1a1a1a1a1a1a1a1a1a1'' ''0101010101010101'' demoState)) = 301000 \<and>
   verifyToken 400000 (actionToken (aliceBody (ProofObject (Some 5000)))) = None \<and>
   fst (completeActionRoute 400000 (Bearer aliceLogin)
     \<lparr>actionToken = aliceLogin, actionId = ''a1a1a1a1a1a1a1a1a1a1a1a1a1a1a1a1'',
      completion_proof = ProofObject (Some 5000)\<rparr> issuedState) =
     Inr \<lparr>scoreIncrement = 100, newScore = 100, newRank = 1\<rparr> \<and>
   tokenUsed ''a1a1a1a1a1a1a1a1a1a1a1a1a1a1a1a1''
     (snd (snd (completeActionRoute 400000 (Bearer aliceLogin)
       \<lparr>actionToken = aliceLogin, actionId = ''a1a1a1a1a1a1a1a1a1a1a1a1a1a1a1a1'',
        completion_proof = ProofObject (Some 5000)\<rparr> issuedState)))"
proof -
  let ?body = "\<lparr>actionToken = aliceLogin, actionId = ''a1a1a1a1a1a1a1a1a1a1a1a1a1a1a1a1'',
      completion_proof = ProofObject (Some 5000)\<rparr>"
  have e: "expiresAt (fst (requestAction 1000 ''user-1'' ''COMPLETE_LEVEL''
      ''a1a1a1a1a1a1a1a1a1a1a1a1a1a1a1a1'' ''0101010101010101'' demoState)) = 301000"
    by (simp add: requestAction_def Let_def)
  have v: "verifyToken 400000 (actionToken (aliceBody (ProofObject (Some 5000)))) = None"
    by (simp add: alice_token_payload verifyToken_def)
  have r: "completeActionRoute 400000 (Bearer aliceLogin) ?body issuedState =
      completeAction 400000 ''user-1'' ?body issuedState"
    by (simp add: completeActionRoute_def aliceLogin_authenticates)
  have "isOk (fst (completeAction 400000 ''user-1'' ?body issuedState))"
    by (simp add: late_consume_result isOk_def)
  then have "tokenUsed (actionId ?body) (snd (snd (completeAction 400000 ''user-1'' ?body issuedState)))"
    by (rule completeAction_marks_used)
  then have u: "tokenUsed ''a1a1a1a1a1a1a1a1a1a1a1a1a1a1a1a1''
      (snd (snd (completeAction 400000 ''user-1'' ?body issuedState)))"
    by simp
  from e v u show ?thesis
    by (simp add: r late_consume_result)
qed

lemma completeAll_Cons_state:
  "snd (snd (completeAll ((now, uid, body) # rs) s)) =
     snd (snd (completeAll rs (snd (snd (completeAction now uid body s)))))"
  by (auto split: prod.splits)

lemma completeAll_keeps_used:
  "tokenUsed aid s \<Longrightarrow> tokenUsed aid (snd (snd (completeAll rs s)))"
proof (induction rs arbitrary: s)
  case Nil
  then show ?case by simp
next
  case (Cons r rs)
  obtain now uid body where r: "r = (now, uid, body)"
    by (cases r) auto
  have "tokenUsed aid (snd (snd (completeAction now uid body s)))"
    using Cons.prems by (rule completeAction_keeps_used)
  then have "tokenUsed aid (snd (snd (completeAll rs (snd (snd (completeAction now uid body s))))))"
    by (rule Cons.IH)
  then show ?case
    unfolding r completeAll_Cons_state .
qed

text \<open>
  Once a complete-action request has succeeded, a later complete-action request naming the
  same action id, after any number of other complete-action requests, is rejected and
  leaves the whole state unchanged.
\<close>

lemma consumed_action_id_rejected:
  assumes "isOk (fst (completeAction now1 uid1 body1 s))"
    and "s2 = snd (snd (completeAll rs (snd (snd (completeAction now1 uid1 body1 s)))))"
    and "actionId body2 = actionId body1"
  shows "completeAction now2 uid2 body2 s2 =
           (Inl (if (case verifyToken now2 (actionToken body2) of
                       None \<Rightarrow> False | Some d \<Rightarrow> p_userId d = uid2)
                 then TokenUsedOrExpired else InvalidActionToken), [], s2)"
proof -
  have "tokenUsed (actionId body1) (snd (snd (completeAction now1 uid1 body1 s)))"
    using assms(1) by (rule completeAction_marks_used)
  then have "tokenUsed (actionId body2) s2"
    unfolding assms(2) assms(3) by (rule completeAll_keeps_used)
  then show ?thesis
    by (rule completeAction_used_rejected)
qed



text \<open>Presented again with its own action id, the token is refused.\<close>

lemma alice_replay_rejected:
  "completeAction 3000 ''user-1'' (aliceBody (ProofObject (Some 5000))) usedState
     = (Inl TokenUsedOrExpired, [], usedState)"
proof -
  have "verifyToken 3000 (actionToken (aliceBody (ProofObject (Some 5000)))) =
      Some \<lparr>p_userId = ''user-1'',
        p_claims = ActionClaims ''a1a1a1a1a1a1a1a1a1a1a1a1a1a1a1a1'' ''COMPLETE_LEVEL'' 1000
          ''0101010101010101'', jwt_iat = 1, jwt_exp = 301\<rparr>"
    by (simp add: alice_token_payload verifyToken_def)
  moreover have "tokenUsed (actionId (aliceBody (ProofObject (Some 5000)))) usedState"
    using used_alice by (simp add: aliceBody_def)
  ultimately show ?thesis
    by (simp add: completeAction_used_rejected)
qed

subsection \<open>Claims about the anti-cheat checks\<close>

lemma completeAction_rate_iff:
  "fst (completeAction now uid body s) = Inl (RateLimitExceeded 60) \<longleftrightarrow>
     tokenAccepted now uid body s \<and> 10 \<le> recentCount now uid (rateLimits s)"
proof (cases "tokenAccepted now uid body s")
  case False
  then show ?thesis by (simp add: completeAction_token_fail)
next
  case t: True
  show ?thesis
  proof (cases "fst (checkRateLimit now uid (rateLimits s))")
    case False
    with t show ?thesis
      by (simp add: completeAction_rate_fail) (simp add: checkRateLimit_fst)
  next
    case r: True
    then have c: "recentCount now uid (rateLimits s) < 10"
      by (simp add: checkRateLimit_fst)
    show ?thesis
    proof (cases "completion_proof body = ProofNull")
      case True
      with t r c show ?thesis by (simp add: completeAction_null_proof)
    next
      case n: False
      show ?thesis
      proof (cases "timingAccepted (completion_proof body)")
        case False
        with t r c n show ?thesis by (simp add: completeAction_timing_fail)
      next
        case True
        with t r c n show ?thesis
          by (simp add: completeAction_pass Let_def split: option.splits)
      qed
    qed
  qed
qed

lemma checkRateLimit_accept_count:
  assumes "fst (checkRateLimit now uid rl)"
  shows "recentCount now uid (snd (checkRateLimit now uid rl)) = recentCount now uid rl + 1"
  using assms by (simp add: checkRateLimit_fst checkRateLimit_snd recentCount_def window_def)

lemma checkRateLimit_other_user:
  "uid' \<noteq> uid \<Longrightarrow> window (snd (checkRateLimit now uid rl)) uid' = window rl uid'"
  by (simp add: checkRateLimit_snd window_def)

lemma completeAction_rateLimits:
  "rateLimits (snd (snd (completeAction now uid body s))) =
     (if tokenAccepted now uid body s then snd (checkRateLimit now uid (rateLimits s))
      else rateLimits s)"
proof (cases "allPass now uid body s")
  case True
  then show ?thesis
    by (auto simp: allPass_def completeAction_pass Let_def markUsed_def split: option.splits)
next
  case False
  then consider "\<not> tokenAccepted now uid body s"
    | "tokenAccepted now uid body s" "\<not> fst (checkRateLimit now uid (rateLimits s))"
    | "tokenAccepted now uid body s" "fst (checkRateLimit now uid (rateLimits s))"
      "completion_proof body = ProofNull"
    | "tokenAccepted now uid body s" "fst (checkRateLimit now uid (rateLimits s))"
      "completion_proof body \<noteq> ProofNull" "\<not> timingAccepted (completion_proof body)"
    unfolding allPass_def by blast
  then show ?thesis
  proof cases
    case 1
    then show ?thesis by (simp add: completeAction_token_fail)
  next
    case 2
    then show ?thesis
      by (simp add: completeAction_rate_fail) (simp add: checkRateLimit_fst checkRateLimit_snd)
  next
    case 3
    then show ?thesis by (simp add: completeAction_null_proof)
  next
    case 4
    then show ?thesis by (simp add: completeAction_timing_fail)
  qed
qed

text \<open>
  A burst: checks at times that all lie within one window of each other and of what is
  already recorded. Each accepted check adds one timestamp, so the check number \<open>i\<close>
  (from 0) is accepted exactly when the window held fewer than \<open>10 - i\<close> timestamps at
  the start.
\<close>

lemma checkAll_Cons:
  "fst (checkAll (t # ts) uid rl) =
     fst (checkRateLimit t uid rl) # fst (checkAll ts uid (snd (checkRateLimit t uid rl)))"
  "snd (checkAll (t # ts) uid rl) = snd (checkAll ts uid (snd (checkRateLimit t uid rl)))"
  by (auto split: prod.splits)

lemma checkAll_burst:
  assumes "\<forall>a\<in>set (window rl uid). \<forall>t\<in>set ts. t - a < 60000"
    and "sorted_wrt (\<lambda>a b. b - a < 60000) ts"
  shows "fst (checkAll ts uid rl) = map (\<lambda>i. length (window rl uid) + i < 10) [0..<length ts] \<and>
         window (snd (checkAll ts uid rl)) uid =
           window rl uid @ take (10 - length (window rl uid)) ts"
  using assms
proof (induction ts arbitrary: rl)
  case Nil
  then show ?case by simp
next
  case (Cons t ts)
  let ?w = "window rl uid"
  let ?rl' = "snd (checkRateLimit t uid rl)"
  have all: "filter (\<lambda>a. t - a < 60000) ?w = ?w"
    using Cons.prems(1) by (simp add: filter_id_conv)
  then have cnt: "recentCount t uid rl = length ?w"
    by (simp add: recentCount_def)
  have m: "map f [0..<Suc n] = f 0 # map (\<lambda>i. f (Suc i)) [0..<n]" for f :: "nat \<Rightarrow> bool" and n
    by (simp add: upt_conv_Cons map_Suc_upt [symmetric] del: upt_Suc)
  show ?case
  proof (cases "length ?w < 10")
    case True
    then have w': "window ?rl' uid = ?w @ [t]"
      by (simp add: checkRateLimit_snd cnt all) (simp add: window_def)
    have "\<forall>a\<in>set (window ?rl' uid). \<forall>t'\<in>set ts. t' - a < 60000"
      using Cons.prems by (auto simp: w')
    moreover have "sorted_wrt (\<lambda>a b. b - a < 60000) ts"
      using Cons.prems(2) by simp
    ultimately have ih: "fst (checkAll ts uid ?rl') =
        map (\<lambda>i. length (window ?rl' uid) + i < 10) [0..<length ts] \<and>
        window (snd (checkAll ts uid ?rl')) uid =
          window ?rl' uid @ take (10 - length (window ?rl' uid)) ts"
      by (rule Cons.IH)
    from True obtain k where k: "10 - length ?w = Suc k"
      by (cases "10 - length ?w") auto
    then have k': "9 - length ?w = k"
      by arith
    from True ih show ?thesis
      by (simp add: checkAll_Cons checkRateLimit_fst cnt m w' k k' del: upt_Suc checkAll.simps)
  next
    case False
    then have same: "?rl' = rl"
      by (simp add: checkRateLimit_snd cnt)
    have "\<forall>a\<in>set (window rl uid). \<forall>t'\<in>set ts. t' - a < 60000"
      using Cons.prems(1) by simp
    moreover have "sorted_wrt (\<lambda>a b. b - a < 60000) ts"
      using Cons.prems(2) by simp
    ultimately have ih: "fst (checkAll ts uid rl) =
        map (\<lambda>i. length (window rl uid) + i < 10) [0..<length ts] \<and>
        window (snd (checkAll ts uid rl)) uid =
          window rl uid @ take (10 - length (window rl uid)) ts"
      by (rule Cons.IH)
    from False ih show ?thesis
      by (simp add: checkAll_Cons checkRateLimit_fst cnt m same del: upt_Suc checkAll.simps)
  qed
qed

text \<open>
  C7. The rate check rejects exactly when ten or more of the user's recorded timestamps
  lie less than 60000 ms before now, and the handler answers "Rate limit exceeded" exactly
  when the token checks pass and that is so. An accepted check stores the timestamps still
  in the window followed by now, which raises the count by one; a rejected check stores
  nothing; the handler keeps what the check stored. So in a burst from an empty window
  the first ten checks are accepted and every further one is rejected. A stored window
  never holds more than ten timestamps, and after every check it holds none older than
  the window. When every recorded timestamp is at least 60000 ms old the check accepts: a
  user rejected at \<open>now0\<close> is accepted again at any time from \<open>now0 + 60000\<close> on.
\<close>

theorem rate_limit_sliding_window:
  "(fst (checkRateLimit now uid rl) \<longleftrightarrow> recentCount now uid rl < 10) \<and>
   snd (checkRateLimit now uid rl) =
     (if recentCount now uid rl < 10
      then rl(uid \<mapsto> filter (\<lambda>t. now - t < 60000) (window rl uid) @ [now]) else rl) \<and>
   (fst (checkRateLimit now uid rl) \<longrightarrow>
      recentCount now uid (snd (checkRateLimit now uid rl)) = recentCount now uid rl + 1) \<and>
   (fst (completeAction now uid body s) = Inl (RateLimitExceeded 60) \<longleftrightarrow>
      tokenAccepted now uid body s \<and> 10 \<le> recentCount now uid (rateLimits s)) \<and>
   rateLimits (snd (snd (completeAction now uid body s))) =
     (if tokenAccepted now uid body s then snd (checkRateLimit now uid (rateLimits s))
      else rateLimits s) \<and>
   ((\<forall>a\<in>set (window rl uid). \<forall>t\<in>set ts. t - a < 60000) \<and>
    sorted_wrt (\<lambda>a b. b - a < 60000) ts \<longrightarrow>
      fst (checkAll ts uid rl) = map (\<lambda>i. length (window rl uid) + i < 10) [0..<length ts] \<and>
      window (snd (checkAll ts uid rl)) uid =
        window rl uid @ take (10 - length (window rl uid)) ts) \<and>
   (length (window rl uid) \<le> 10 \<longrightarrow>
      (\<forall>t\<in>set (window (snd (checkRateLimit now uid rl)) uid). now - t < 60000) \<and>
      length (window (snd (checkRateLimit now uid rl)) uid) \<le> 10) \<and>
   ((\<forall>t\<in>set (window rl uid). t + 60000 \<le> now) \<longrightarrow> fst (checkRateLimit now uid rl)) \<and>
   (\<not> fst (checkRateLimit now0 uid rl) \<and> (\<forall>t\<in>set (window rl uid). t \<le> now0) \<and>
    now0 + 60000 \<le> now \<longrightarrow>
      fst (checkRateLimit now uid (snd (checkRateLimit now0 uid rl))))"
proof (intro conjI impI)
  show "fst (checkRateLimit now uid rl) \<longleftrightarrow> recentCount now uid rl < 10"
    by (rule checkRateLimit_fst)
next
  show "snd (checkRateLimit now uid rl) =
     (if recentCount now uid rl < 10
      then rl(uid \<mapsto> filter (\<lambda>t. now - t < 60000) (window rl uid) @ [now]) else rl)"
    by (rule checkRateLimit_snd)
next
  assume "fst (checkRateLimit now uid rl)"
  then show "recentCount now uid (snd (checkRateLimit now uid rl)) = recentCount now uid rl + 1"
    by (rule checkRateLimit_accept_count)
next
  show "fst (completeAction now uid body s) = Inl (RateLimitExceeded 60) \<longleftrightarrow>
      tokenAccepted now uid body s \<and> 10 \<le> recentCount now uid (rateLimits s)"
    by (rule completeAction_rate_iff)
next
  show "rateLimits (snd (snd (completeAction now uid body s))) =
     (if tokenAccepted now uid body s then snd (checkRateLimit now uid (rateLimits s))
      else rateLimits s)"
    by (rule completeAction_rateLimits)
next
  assume b: "(\<forall>a\<in>set (window rl uid). \<forall>t\<in>set ts. t - a < 60000) \<and>
    sorted_wrt (\<lambda>a b. b - a < 60000) ts"
  then have c: "fst (checkAll ts uid rl) = map (\<lambda>i. length (window rl uid) + i < 10) [0..<length ts] \<and>
      window (snd (checkAll ts uid rl)) uid =
        window rl uid @ take (10 - length (window rl uid)) ts"
    by (intro checkAll_burst) simp_all
  from c show "fst (checkAll ts uid rl) = map (\<lambda>i. length (window rl uid) + i < 10) [0..<length ts]" ..
  from c show "window (snd (checkAll ts uid rl)) uid =
        window rl uid @ take (10 - length (window rl uid)) ts" ..
next
  assume "length (window rl uid) \<le> 10"
  then have w: "(\<forall>t\<in>set (window (snd (checkRateLimit now uid rl)) uid). now - t < 60000) \<and>
      length (window (snd (checkRateLimit now uid rl)) uid) \<le> 10"
    by (rule window_after_check)
  from w show "\<forall>t\<in>set (window (snd (checkRateLimit now uid rl)) uid). now - t < 60000" ..
  from w show "length (window (snd (checkRateLimit now uid rl)) uid) \<le> 10" ..
next
  assume "\<forall>t\<in>set (window rl uid). t + 60000 \<le> now"
  then show "fst (checkRateLimit now uid rl)"
    by (simp add: checkRateLimit_fst window_elapsed)
next
  assume a: "\<not> fst (checkRateLimit now0 uid rl) \<and> (\<forall>t\<in>set (window rl uid). t \<le> now0) \<and>
    now0 + 60000 \<le> now"
  then have "snd (checkRateLimit now0 uid rl) = rl"
    by (simp add: checkRateLimit_fst checkRateLimit_snd)
  moreover from a have "\<forall>t\<in>set (window rl uid). t + 60000 \<le> now"
    by fastforce
  ultimately show "fst (checkRateLimit now uid (snd (checkRateLimit now0 uid rl)))"
    by (simp add: checkRateLimit_fst window_elapsed)
qed

text \<open>
  The witness fills the window with the code: ten checks of Alice from an empty store are
  all accepted and recorded, the eleventh at time 2100 is rejected, and at time 62100 she
  is accepted again.
\<close>

lemma burst_results:
  "checkAll burstTimes ''user-1'' Map.empty =
     ([True, True, True, True, True, True, True, True, True, True],
      [''user-1'' \<mapsto> [2000, 2001, 2002, 2003, 2004, 2005, 2006, 2007, 2008, 2009]])"
  by (simp add: burstTimes_def checkRateLimit_def)

lemma filledWindow_window:
  "window filledWindow ''user-1'' = [2000, 2001, 2002, 2003, 2004, 2005, 2006, 2007, 2008, 2009]"
  by (simp add: filledWindow_def burst_results window_def)

theorem rate_limit_sliding_window_witness:
  "fst (checkAll burstTimes ''user-1'' Map.empty) =
     [True, True, True, True, True, True, True, True, True, True] \<and>
   window filledWindow ''user-1'' = burstTimes \<and>
   recentCount 2100 ''user-1'' filledWindow = 10 \<and>
   \<not> fst (checkRateLimit 2100 ''user-1'' filledWindow) \<and>
   snd (checkRateLimit 2100 ''user-1'' filledWindow) = filledWindow \<and>
   list_all (\<lambda>t. 2100 - t < 60000) (window (snd (checkRateLimit 2100 ''user-1'' filledWindow)) ''user-1'') \<and>
   fst (checkRateLimit 62100 ''user-1'' (snd (checkRateLimit 2100 ''user-1'' filledWindow))) \<and>
   recentCount 62100 ''user-1'' (snd (checkRateLimit 62100 ''user-1'' filledWindow)) = 1"
proof -
  note b = rate_limit_sliding_window [of 2100 "''user-1''" Map.empty _ _ burstTimes 2100]
  note w = rate_limit_sliding_window [of 2100 "''user-1''" filledWindow _ _ "[]" 2100]
  note v = rate_limit_sliding_window [of 62100 "''user-1''" filledWindow _ _ "[]" 2100]
  have e: "window Map.empty ''user-1'' = []"
    by (simp add: window_def)
  have h: "(\<forall>a\<in>set (window Map.empty ''user-1''). \<forall>t\<in>set burstTimes. t - a < 60000) \<and>
      sorted_wrt (\<lambda>a b. b - a < 60000) burstTimes"
    by (simp add: e burstTimes_def)
  from b h have r1: "fst (checkAll burstTimes ''user-1'' Map.empty) =
      map (\<lambda>i. length (window Map.empty ''user-1'') + i < 10) [0..<length burstTimes]"
    by blast
  have "map (\<lambda>i. length (window Map.empty ''user-1'') + i < 10) [0..<length burstTimes] =
      [True, True, True, True, True, True, True, True, True, True]"
    by (simp add: e burstTimes_def upt_conv_Cons)
  with r1 have r: "fst (checkAll burstTimes ''user-1'' Map.empty) =
      [True, True, True, True, True, True, True, True, True, True]"
    by simp
  have f: "window filledWindow ''user-1'' = burstTimes"
    by (simp add: filledWindow_window burstTimes_def)
  have l: "length (window filledWindow ''user-1'') \<le> 10"
    by (simp add: filledWindow_window)
  have c: "recentCount 2100 ''user-1'' filledWindow = 10"
    by (simp add: recentCount_def filledWindow_window)
  have p: "\<forall>t\<in>set (window filledWindow ''user-1''). t \<le> 2100"
    by (simp add: filledWindow_window)
  from w c have n: "\<not> fst (checkRateLimit 2100 ''user-1'' filledWindow)"
    by simp
  from w c have s: "snd (checkRateLimit 2100 ''user-1'' filledWindow) = filledWindow"
    by simp
  from w l have o: "\<forall>t\<in>set (window (snd (checkRateLimit 2100 ''user-1'' filledWindow)) ''user-1''). 2100 - t < 60000"
    by blast
  have "(2100::int) + 60000 \<le> 62100" by simp
  with v n p have a: "fst (checkRateLimit 62100 ''user-1'' (snd (checkRateLimit 2100 ''user-1'' filledWindow)))"
    by blast
  have z: "recentCount 62100 ''user-1'' filledWindow = 0"
    by (simp add: recentCount_def filledWindow_window)
  from a s have "fst (checkRateLimit 62100 ''user-1'' filledWindow)"
    by simp
  with v have "recentCount 62100 ''user-1'' (snd (checkRateLimit 62100 ''user-1'' filledWindow)) =
      recentCount 62100 ''user-1'' filledWindow + 1"
    by blast
  with z have q: "recentCount 62100 ''user-1'' (snd (checkRateLimit 62100 ''user-1'' filledWindow)) = 1"
    by simp
  from r f c n s o a q show ?thesis
    by (simp add: list_all_iff)
qed

text \<open>
  C8. A claimed completion time of 0 ms is below the minimum of 1000 ms, yet the request
  is accepted and the score updated: \<^verbatim>\<open>proof.completionTime || 10000\<close> replaces the
  falsy 0 by the default before the bounds are compared.
\<close>

theorem zero_completion_time_accepted:
  "tokenAccepted 2000 ''user-1'' (aliceBody (ProofObject (Some 0))) issuedState \<and>
   fst (checkRateLimit 2000 ''user-1'' (rateLimits issuedState)) \<and>
   (0::int) < 1000 \<and>
   fst (completeAction 2000 ''user-1'' (aliceBody (ProofObject (Some 0))) issuedState)
     = Inr \<lparr>scoreIncrement = 100, newScore = 100, newRank = 1\<rparr>"
proof -
  have "fst (checkRateLimit 2000 ''user-1'' (rateLimits issuedState))"
    by (simp add: run_defs)
  moreover have "fst (completeAction 2000 ''user-1'' (aliceBody (ProofObject (Some 0))) issuedState)
     = Inr \<lparr>scoreIncrement = 100, newScore = 100, newRank = 1\<rparr>"
    by (simp add: run_defs)
  ultimately show ?thesis
    by (simp add: issued_alice_accepted)
qed

text \<open>For every other integer the check is the one the README describes.\<close>

lemma timing_check_nonzero:
  "c \<noteq> 0 \<Longrightarrow> timingAccepted (ProofObject (Some c)) \<longleftrightarrow> 1000 \<le> c \<and> c \<le> 300000"
  by (simp add: timingAccepted_def claimedTime_def completionTime_def)

lemma completeAction_suspicious_iff:
  "fst (completeAction now uid body s) = Inl SuspiciousCompletionTime \<longleftrightarrow>
     tokenAccepted now uid body s \<and> fst (checkRateLimit now uid (rateLimits s)) \<and>
     completion_proof body \<noteq> ProofNull \<and> \<not> timingAccepted (completion_proof body)"
proof (cases "tokenAccepted now uid body s")
  case False
  then show ?thesis by (simp add: completeAction_token_fail)
next
  case t: True
  show ?thesis
  proof (cases "fst (checkRateLimit now uid (rateLimits s))")
    case False
    with t show ?thesis
      by (simp add: completeAction_rate_fail)
  next
    case r: True
    show ?thesis
    proof (cases "completion_proof body = ProofNull")
      case True
      with t r show ?thesis by (simp add: completeAction_null_proof)
    next
      case n: False
      show ?thesis
      proof (cases "timingAccepted (completion_proof body)")
        case False
        with t r n show ?thesis by (simp add: completeAction_timing_fail)
      next
        case True
        with t r n show ?thesis
          by (simp add: completeAction_pass Let_def split: option.splits)
      qed
    qed
  qed
qed

text \<open>
  C10. When the proof is absent, has no \<^verbatim>\<open>completionTime\<close>, or has a
  \<^verbatim>\<open>completionTime\<close> of 0, the value compared with the bounds is the default 10000,
  which lies within them: such a request is never answered "Suspicious completion time".
\<close>

theorem absent_completion_time_defaults:
  "completionTime None = 10000 \<and> completionTime (Some 0) = 10000 \<and>
   timingAccepted ProofAbsent \<and> timingAccepted (ProofObject None) \<and>
   timingAccepted (ProofObject (Some 0)) \<and>
   (completion_proof body = ProofAbsent \<or> completion_proof body = ProofObject None \<or>
    completion_proof body = ProofObject (Some 0) \<longrightarrow>
      fst (completeAction now uid body s) \<noteq> Inl SuspiciousCompletionTime)"
proof -
  have a: "timingAccepted ProofAbsent \<and> timingAccepted (ProofObject None) \<and>
   timingAccepted (ProofObject (Some 0))"
    by (simp add: timingAccepted_def claimedTime_def completionTime_def)
  have "completion_proof body = ProofAbsent \<or> completion_proof body = ProofObject None \<or>
    completion_proof body = ProofObject (Some 0) \<longrightarrow> timingAccepted (completion_proof body)"
    using a by auto
  then have "completion_proof body = ProofAbsent \<or> completion_proof body = ProofObject None \<or>
    completion_proof body = ProofObject (Some 0) \<longrightarrow>
      fst (completeAction now uid body s) \<noteq> Inl SuspiciousCompletionTime"
    by (simp add: completeAction_suspicious_iff)
  with a show ?thesis
    by (simp add: completionTime_def)
qed

theorem absent_completion_time_defaults_witness:
  "completion_proof (aliceBody ProofAbsent) = ProofAbsent \<and>
   fst (completeAction 2000 ''user-1'' (aliceBody ProofAbsent) issuedState)
     \<noteq> Inl SuspiciousCompletionTime \<and>
   fst (completeAction 2000 ''user-1'' (aliceBody ProofAbsent) issuedState)
     = Inr \<lparr>scoreIncrement = 100, newScore = 100, newRank = 1\<rparr>"
proof -
  have p: "completion_proof (aliceBody ProofAbsent) = ProofAbsent"
    by (simp add: aliceBody_def)
  have r: "fst (completeAction 2000 ''user-1'' (aliceBody ProofAbsent) issuedState)
     = Inr \<lparr>scoreIncrement = 100, newScore = 100, newRank = 1\<rparr>"
    by (simp add: run_defs)
  from p absent_completion_time_defaults [of "aliceBody ProofAbsent" 2000 "''user-1''" issuedState]
  have "fst (completeAction 2000 ''user-1'' (aliceBody ProofAbsent) issuedState)
     \<noteq> Inl SuspiciousCompletionTime"
    by blast
  with p r show ?thesis by blast
qed

subsection \<open>Events\<close>

lemma snapshotTimes_append: "snapshotTimes (xs @ ys) = snapshotTimes xs @ snapshotTimes ys"
  by (induction xs rule: snapshotTimes.induct) simp_all

lemma completeAction_result:
  "completeAction now uid body s =
     (fst (completeAction now uid body s), fst (snd (completeAction now uid body s)),
      snd (snd (completeAction now uid body s)))"
  by simp

lemma completeAction_broadcast:
  "case fst (completeAction now uid body s) of
     Inl e \<Rightarrow> fst (snd (completeAction now uid body s)) = []
   | Inr ok \<Rightarrow> fst (snd (completeAction now uid body s)) =
       [LeaderboardUpdate (getLeaderboard now 10 (users (snd (snd (completeAction now uid body s))))) now,
        ScoreUpdate uid (newScore ok - 100) (newScore ok) 100 (newRank ok)]"
proof (cases "allPass now uid body s")
  case True
  then show ?thesis
    by (auto simp: allPass_def completeAction_pass Let_def markUsed_def split: option.splits)
next
  case False
  then consider "\<not> tokenAccepted now uid body s"
    | "tokenAccepted now uid body s" "\<not> fst (checkRateLimit now uid (rateLimits s))"
    | "tokenAccepted now uid body s" "fst (checkRateLimit now uid (rateLimits s))"
      "completion_proof body = ProofNull"
    | "tokenAccepted now uid body s" "fst (checkRateLimit now uid (rateLimits s))"
      "completion_proof body \<noteq> ProofNull" "\<not> timingAccepted (completion_proof body)"
    unfolding allPass_def by blast
  then show ?thesis
  proof cases
    case 1
    then show ?thesis by (simp add: completeAction_token_fail)
  next
    case 2
    then show ?thesis by (simp add: completeAction_rate_fail)
  next
    case 3
    then show ?thesis by (simp add: completeAction_null_proof)
  next
    case 4
    then show ?thesis by (simp add: completeAction_timing_fail)
  qed
qed

lemma completeAction_snapshotTimes:
  "snapshotTimes (fst (snd (completeAction now uid body s))) =
     (if isOk (fst (completeAction now uid body s)) then [now] else [])"
  using completeAction_broadcast [of now uid body s]
  by (auto simp: isOk_def split: sum.splits)

lemma completeAll_snapshots:
  "length (snapshotTimes (fst (snd (completeAll rs s)))) = length (filter isOk (fst (completeAll rs s)))"
proof (induction rs arbitrary: s)
  case Nil
  then show ?case by simp
next
  case (Cons r rs)
  obtain now uid body where r: "r = (now, uid, body)"
    by (cases r) auto
  let ?s' = "snd (snd (completeAction now uid body s))"
  have "fst (completeAll (r # rs) s) = fst (completeAction now uid body s) # fst (completeAll rs ?s')"
    by (auto simp: r split: prod.splits)
  moreover have "fst (snd (completeAll (r # rs) s)) =
      fst (snd (completeAction now uid body s)) @ fst (snd (completeAll rs ?s'))"
    by (auto simp: r split: prod.splits)
  ultimately show ?case
    using Cons.IH [of ?s']
    by (simp add: snapshotTimes_append completeAction_snapshotTimes)
qed

subsection \<open>Sorting, slicing and searching\<close>

lemma insert_by_score:
  "insert_by (\<lambda>a b. score b - score a) x ys = insort_key (\<lambda>u. - score u) x ys"
  by (induction ys) auto

lemma ranking_sort_key: "ranking us = sort_key (\<lambda>u. - score u) (map snd us)"
  unfolding ranking_def array_sort_def sort_key_def
  by (induction us) (simp_all add: insert_by_score)

lemma slice_from_start:
  "slice 0 n xs = (if n < 0 then take (length xs - nat (- n)) xs else take (nat n) xs)"
  by (auto simp: slice_def Let_def min_def max_def nat_diff_distrib' nat_add_distrib intro!: arg_cong2[where f=take])

lemma findIndex_takeWhile:
  "findIndex P xs =
     (if \<exists>x\<in>set xs. P x then int (length (takeWhile (\<lambda>x. \<not> P x) xs)) else - 1)"
  by (induction xs) (auto simp: Let_def)

lemma findIndex_map: "findIndex P (map g xs) = findIndex (\<lambda>x. P (g x)) xs"
  by (induction xs) (auto simp: Let_def)

lemma findIndex_enumerate:
  "findIndex (\<lambda>p. P (snd p)) (enumerate n xs) = findIndex P xs"
  by (induction xs arbitrary: n) (auto simp: Let_def)

lemma sorted_three_blocks:
  "sorted (map f ys) \<Longrightarrow>
   filter (\<lambda>y. f y < k) ys @ filter (\<lambda>y. f y = k) ys @ filter (\<lambda>y. k < f y) ys = ys"
proof (induction ys)
  case Nil
  then show ?case by simp
next
  case (Cons y ys)
  then have ih: "filter (\<lambda>y. f y < k) ys @ filter (\<lambda>y. f y = k) ys @ filter (\<lambda>y. k < f y) ys = ys"
    and le: "\<forall>z\<in>set ys. f y \<le> f z"
    by simp_all
  consider "f y < k" | "f y = k" | "k < f y"
    by (cases "f y < k"; cases "f y = k") auto
  then show ?case
  proof cases
    case 1
    then have "f y \<noteq> k" "\<not> k < f y" by auto
    with 1 ih show ?thesis by simp
  next
    case 2
    with le have "filter (\<lambda>y. f y < k) ys = []"
      by (auto simp: filter_empty_conv)
    with 2 ih show ?thesis by simp
  next
    case 3
    with le have "filter (\<lambda>y. f y < k) ys = []" "filter (\<lambda>y. f y = k) ys = []"
      by (auto simp: filter_empty_conv)
    moreover from 3 have "f y \<noteq> k" "\<not> f y < k" by auto
    ultimately show ?thesis using 3 ih by simp
  qed
qed

lemma takeWhile_filter_commute:
  "\<forall>x\<in>set xs. P x \<longrightarrow> Q x \<Longrightarrow>
   takeWhile (\<lambda>x. \<not> P x) (filter Q xs) = filter Q (takeWhile (\<lambda>x. \<not> P x) xs)"
  by (induction xs) auto

text \<open>The place of an element in a stable sort: after the smaller keys and after the
  equal keys that stood before it.\<close>

lemma stable_sort_position:
  fixes f :: "'a \<Rightarrow> int"
  assumes "u \<in> set xs" "P u" "\<forall>x\<in>set xs. P x \<longrightarrow> x = u"
  shows "length (takeWhile (\<lambda>x. \<not> P x) (sort_key f xs)) =
           length (filter (\<lambda>x. f x < f u) xs) +
           length (filter (\<lambda>x. f x = f u) (takeWhile (\<lambda>x. \<not> P x) xs))"
proof -
  let ?ys = "sort_key f xs"
  let ?A = "filter (\<lambda>y. f y < f u) ?ys"
  let ?B = "filter (\<lambda>y. f y = f u) ?ys"
  let ?C = "filter (\<lambda>y. f u < f y) ?ys"
  have split: "?A @ ?B @ ?C = ?ys"
    by (rule sorted_three_blocks) simp
  have B: "?B = filter (\<lambda>y. f y = f u) xs"
    by (rule sort_key_stable)
  have uB: "u \<in> set ?B"
    using assms(1) by (simp add: B)
  have noA: "\<And>x. x \<in> set ?A \<Longrightarrow> \<not> P x"
    using assms(3) by auto
  have "takeWhile (\<lambda>x. \<not> P x) ?ys = takeWhile (\<lambda>x. \<not> P x) (?A @ ?B @ ?C)"
    using split by simp
  also have "\<dots> = ?A @ takeWhile (\<lambda>x. \<not> P x) (?B @ ?C)"
    using noA by (rule takeWhile_append2)
  also have "takeWhile (\<lambda>x. \<not> P x) (?B @ ?C) = takeWhile (\<lambda>x. \<not> P x) ?B"
    using uB assms(2) by (intro takeWhile_append1[where x=u]) auto
  also have "takeWhile (\<lambda>x. \<not> P x) ?B = filter (\<lambda>y. f y = f u) (takeWhile (\<lambda>x. \<not> P x) xs)"
    unfolding B using assms(3) by (intro takeWhile_filter_commute) auto
  finally have "length (takeWhile (\<lambda>x. \<not> P x) ?ys) =
      length ?A + length (filter (\<lambda>y. f y = f u) (takeWhile (\<lambda>x. \<not> P x) xs))"
    by simp
  moreover have "length ?A = length (filter (\<lambda>x. f x < f u) xs)"
    by (simp add: filter_sort)
  ultimately show ?thesis by simp
qed

subsection \<open>The leaderboard\<close>

lemma map_snd_enumerate_fun: "map (\<lambda>p. g (snd p)) (enumerate n xs) = map g xs"
  by (induction xs arbitrary: n) simp_all

lemma map_fst_enumerate_fun: "map (\<lambda>p. h (fst p)) (enumerate n xs) = map h [n..<n + length xs]"
proof -
  have "map h [n..<n + length xs] = map h (map fst (enumerate n xs))"
    by (simp only: map_fst_enumerate)
  also have "\<dots> = map (\<lambda>p. h (fst p)) (enumerate n xs)"
    by (simp only: map_map comp_def)
  finally show ?thesis by (rule sym)
qed

lemma getLeaderboard_userIds:
  "map userId (getLeaderboard now n us) = map user_id (slice 0 n (ranking us))"
proof -
  have "map userId (getLeaderboard now n us) =
      map (\<lambda>p. user_id (snd p)) (enumerate 0 (slice 0 n (ranking us)))"
    by (simp add: getLeaderboard_def ranking_def case_prod_beta)
  also have "\<dots> = map user_id (slice 0 n (ranking us))"
    by (rule map_snd_enumerate_fun)
  finally show ?thesis .
qed

lemma getLeaderboard_scores:
  "map e_score (getLeaderboard now n us) = map score (slice 0 n (ranking us))"
proof -
  have "map e_score (getLeaderboard now n us) =
      map (\<lambda>p. score (snd p)) (enumerate 0 (slice 0 n (ranking us)))"
    by (simp add: getLeaderboard_def ranking_def case_prod_beta)
  also have "\<dots> = map score (slice 0 n (ranking us))"
    by (rule map_snd_enumerate_fun)
  finally show ?thesis .
qed

lemma getLeaderboard_length:
  "length (getLeaderboard now n us) =
     (if n < 0 then length us - nat (- n) else min (nat n) (length us))"
  by (simp add: getLeaderboard_def slice_from_start ranking_sort_key [unfolded ranking_def] min.commute)

lemma getLeaderboard_ranks:
  "map rank (getLeaderboard now n us) = map (\<lambda>i. int i + 1) [0..<length (getLeaderboard now n us)]"
proof -
  have "map rank (getLeaderboard now n us) =
      map (\<lambda>p. int (fst p) + 1) (enumerate 0 (slice 0 n (ranking us)))"
    by (simp add: getLeaderboard_def ranking_def case_prod_beta)
  also have "\<dots> = map (\<lambda>i. int i + 1) [0..<0 + length (slice 0 n (ranking us))]"
    by (rule map_fst_enumerate_fun)
  finally show ?thesis
    by (simp add: getLeaderboard_def ranking_def)
qed

lemma ranking_descending: "sorted_wrt (\<lambda>a b. score b \<le> score a) (ranking us)"
proof -
  have "sorted (map (\<lambda>u. - score u) (ranking us))"
    by (simp add: ranking_sort_key)
  then show ?thesis
    by (simp add: sorted_map)
qed

lemma slice_descending:
  "sorted_wrt (\<lambda>a b. score b \<le> score a) (slice 0 n (ranking us))"
  using ranking_descending [of us]
  by (simp add: slice_from_start)

lemma getLeaderboard_descending:
  "sorted_wrt (\<lambda>a b. e_score b \<le> e_score a) (getLeaderboard now n us)"
proof -
  have "sorted_wrt (\<lambda>a b. b \<le> a) (map score (slice 0 n (ranking us)))"
    using slice_descending [of n us] by (simp add: sorted_wrt_map)
  then have "sorted_wrt (\<lambda>a b. b \<le> a) (map e_score (getLeaderboard now n us))"
    by (simp add: getLeaderboard_scores)
  then show ?thesis
    by (simp add: sorted_wrt_map)
qed

lemma ranking_stable:
  "filter (\<lambda>u. score u = v) (ranking us) = filter (\<lambda>u. score u = v) (map snd us)"
proof -
  have "filter (\<lambda>u. - score u = - v) (sort_key (\<lambda>u. - score u) (map snd us)) =
        filter (\<lambda>u. - score u = - v) (map snd us)"
    by (rule sort_key_stable)
  then show ?thesis
    by (simp add: ranking_sort_key)
qed

lemma ranking_mset: "mset (ranking us) = mset (map snd us)"
  by (simp add: ranking_sort_key)

text \<open>Through the route, a limit of 0 asks for the top ten.\<close>

lemma getLeaderboardRoute_zero:
  "getLeaderboardRoute now (Some 0) s = (getLeaderboard now 10 (users s), now)"
  by (simp add: getLeaderboardRoute_def)

subsection \<open>The rank\<close>

lemma rankIn_findIndex:
  assumes "length us \<le> 100"
  shows "rankIn now uid us = findIndex (\<lambda>v. user_id v = uid) (ranking us) + 1"
proof -
  have "length (ranking us) \<le> 100"
    using assms by (simp add: ranking_sort_key)
  then have s: "slice 0 100 (ranking us) = ranking us"
    by (simp add: slice_from_start)
  have "findIndex (\<lambda>e. userId e = uid) (getLeaderboard now 100 us) =
      findIndex (\<lambda>p. user_id (snd p) = uid) (enumerate 0 (ranking us))"
    by (simp add: getLeaderboard_def s [unfolded ranking_def] ranking_def findIndex_map case_prod_beta)
  also have "\<dots> = findIndex (\<lambda>v. user_id v = uid) (ranking us)"
    by (rule findIndex_enumerate)
  finally show ?thesis
    by (simp add: rankIn_def)
qed

lemma wellFormed_lookup:
  assumes "wellFormed us" "(k, v) \<in> set us"
  shows "user_id v = k" "map_of us k = Some v"
  using assms by (auto simp: wellFormed_def list_all_iff)

lemma rankIn_storeRank:
  assumes wf: "wellFormed us" and len: "length us \<le> 100"
  shows "rankIn now uid us = storeRank uid us"
proof (cases "map_of us uid")
  case None
  have "\<not> (\<exists>v\<in>set (ranking us). user_id v = uid)"
  proof
    assume "\<exists>v\<in>set (ranking us). user_id v = uid"
    then obtain k v where "(k, v) \<in> set us" "user_id v = uid"
      by (auto simp: ranking_sort_key)
    with wf have "map_of us uid = Some v"
      using wellFormed_lookup by blast
    with None show False by simp
  qed
  then have "findIndex (\<lambda>v. user_id v = uid) (ranking us) = - 1"
    by (simp add: findIndex_takeWhile)
  with None len show ?thesis
    by (simp add: rankIn_findIndex storeRank_def)
next
  case (Some u)
  then have mem: "(uid, u) \<in> set us"
    by (rule map_of_SomeD)
  with wf have id: "user_id u = uid"
    using wellFormed_lookup by blast
  have uin: "u \<in> set (map snd us)"
    using mem by force
  have uniq: "\<forall>x\<in>set (map snd us). user_id x = uid \<longrightarrow> x = u"
  proof (intro ballI impI)
    fix x assume "x \<in> set (map snd us)" "user_id x = uid"
    then obtain k where "(k, x) \<in> set us" by auto
    with wf \<open>user_id x = uid\<close> have "map_of us uid = Some x"
      using wellFormed_lookup by blast
    with Some show "x = u" by simp
  qed
  have found: "\<exists>v\<in>set (ranking us). user_id v = uid"
    using uin id by (auto simp: ranking_sort_key)
  have "length (takeWhile (\<lambda>x. \<not> user_id x = uid) (sort_key (\<lambda>u. - score u) (map snd us))) =
      length (filter (\<lambda>x. - score x < - score u) (map snd us)) +
      length (filter (\<lambda>x. - score x = - score u) (takeWhile (\<lambda>x. \<not> user_id x = uid) (map snd us)))"
    using uin id uniq by (rule stable_sort_position)
  then have "length (takeWhile (\<lambda>x. user_id x \<noteq> uid) (ranking us)) =
      length (filter (\<lambda>x. score u < score x) (map snd us)) +
      length (filter (\<lambda>x. score x = score u) (takeWhile (\<lambda>x. user_id x \<noteq> uid) (map snd us)))"
    by (simp add: ranking_sort_key)
  with found Some len show ?thesis
    by (simp add: rankIn_findIndex storeRank_def findIndex_takeWhile)
qed

lemma list_all_update:
  "list_all Q al \<Longrightarrow> Q (k, v) \<Longrightarrow> list_all Q (AList.update k v al)"
  by (induction al) auto

lemma wellFormed_addScore:
  assumes "wellFormed us"
  shows "wellFormed (addScore uid us)"
proof (cases "map_of us uid")
  case None
  with assms show ?thesis by (simp add: addScore_def)
next
  case (Some u)
  then have "(uid, u) \<in> set us" by (rule map_of_SomeD)
  with assms have "user_id u = uid"
    using wellFormed_lookup by blast
  with assms Some show ?thesis
    by (simp add: addScore_def wellFormed_def distinct_update list_all_update)
qed

lemma length_addScore: "length (addScore uid us) = length us"
proof (cases "map_of us uid")
  case None
  then show ?thesis by (simp add: addScore_def)
next
  case (Some u)
  then have "uid \<in> fst ` set us"
    by (metis map_of_eq_None_iff option.distinct(1))
  then have "length (AList.update uid v us) = length us" for v
    by (induction us) auto
  with Some show ?thesis
    by (simp add: addScore_def)
qed

lemma wellFormed_initUsers: "wellFormed (initUsers sc ta) \<and> length (initUsers sc ta) = 10"
  by (simp add: wellFormed_def initUsers_def demoNames_def enumerate_eq_zip)

subsection \<open>The run in which Bob and Alice tie\<close>

lemma tieRun_results:
  "fst (completeAll tieRun issuedState) =
     [Inr \<lparr>scoreIncrement = 100, newScore = 100, newRank = 1\<rparr>,
      Inr \<lparr>scoreIncrement = 100, newScore = 100, newRank = 1\<rparr>]"
  by (simp add: tieRun_def run_defs)

lemma tieRun_snapshots:
  "snapshotTimes (fst (snd (completeAll tieRun issuedState))) = [10000, 10400]"
  by (simp add: tieRun_def run_defs)

lemma tieState_users:
  "users tieState =
     [(''user-1'', \<lparr>user_id = ''user-1'', username = ''Alice'', password = ''demo123'',
         score = 100, totalActions = 1\<rparr>),
      (''user-2'', \<lparr>user_id = ''user-2'', username = ''Bob'', password = ''demo123'',
         score = 100, totalActions = 1\<rparr>),
      (''user-3'', \<lparr>user_id = ''user-3'', username = ''Charlie'', password = ''demo123'',
         score = 0, totalActions = 0\<rparr>),
      (''user-4'', \<lparr>user_id = ''user-4'', username = ''David'', password = ''demo123'',
         score = 0, totalActions = 0\<rparr>),
      (''user-5'', \<lparr>user_id = ''user-5'', username = ''Eve'', password = ''demo123'',
         score = 0, totalActions = 0\<rparr>),
      (''user-6'', \<lparr>user_id = ''user-6'', username = ''Frank'', password = ''demo123'',
         score = 0, totalActions = 0\<rparr>),
      (''user-7'', \<lparr>user_id = ''user-7'', username = ''Grace'', password = ''demo123'',
         score = 0, totalActions = 0\<rparr>),
      (''user-8'', \<lparr>user_id = ''user-8'', username = ''Henry'', password = ''demo123'',
         score = 0, totalActions = 0\<rparr>),
      (''user-9'', \<lparr>user_id = ''user-9'', username = ''Iris'', password = ''demo123'',
         score = 0, totalActions = 0\<rparr>),
      (''user-10'', \<lparr>user_id = ''user-10'', username = ''Jack'', password = ''demo123'',
         score = 0, totalActions = 0\<rparr>)]"
  by (simp add: tieState_def tieRun_def run_defs)

lemma tieRun_lastUpdated:
  "lastUpdated Map.empty tieRun issuedState = [''user-2'' \<mapsto> 10000, ''user-1'' \<mapsto> 10400]"
  by (simp add: tieRun_def run_defs)

lemma tie_top2:
  "getLeaderboard 20000 2 (users tieState) =
     [\<lparr>rank = 1, userId = ''user-1'', e_username = ''Alice'', e_score = 100, updatedAt = 20000\<rparr>,
      \<lparr>rank = 2, userId = ''user-2'', e_username = ''Bob'', e_score = 100, updatedAt = 20000\<rparr>]"
  by (simp add: tieState_users getLeaderboard_def array_sort_def slice_def enumerate_eq_zip)

lemma tie_stamped:
  "stamped (lastUpdated Map.empty tieRun issuedState) (getLeaderboard 20000 2 (users tieState)) =
     [(''user-1'', 100, Some 10400), (''user-2'', 100, Some 10000)]"
  by (simp add: tie_top2 tieRun_lastUpdated stamped_def)

lemma tie_minus_one:
  "map userId (getLeaderboard 20000 (- 1) (users tieState)) =
     [''user-1'', ''user-2'', ''user-3'', ''user-4'', ''user-5'', ''user-6'', ''user-7'',
      ''user-8'', ''user-9'']"
  by (simp add: tieState_users getLeaderboard_def array_sort_def slice_def enumerate_eq_zip)

lemma tie_bob_score:
  "getMyScore 20000 ''user-2'' tieState =
     Inr \<lparr>m_userId = ''user-2'', m_username = ''Bob'', m_score = 100, m_rank = 2, m_totalActions = 1\<rparr>"
  by (simp add: getMyScore_def tieState_users getLeaderboard_def array_sort_def slice_def enumerate_eq_zip)

lemma tie_bob_spec_rank:
  "spec_rank (stamped (lastUpdated Map.empty tieRun issuedState) (getLeaderboard 20000 2 (users tieState)))
     ''user-2'' = Some 1"
  by (simp add: tie_stamped spec_rank_def)

lemma tie_wellFormed: "wellFormed (users tieState) \<and> length (users tieState) \<le> 100"
  by (simp add: tieState_users wellFormed_def)

subsection \<open>Claims about the leaderboard, the rank and the broadcast\<close>

text \<open>
  C5, as \<open>getLeaderboard\<close> behaves: the answer is cut from the front of the stable
  ordering of the store by descending score. Its scores are descending; users with equal
  scores keep the order in which they stand in the store (no last-updated time is kept or
  compared); ranks count from 1. For \<open>n \<ge> 0\<close> it has \<open>min n N\<close> entries, none for
  \<open>n = 0\<close>; for \<open>n < 0\<close> it has all but the last \<open>- n\<close> entries of the ordering.
\<close>

theorem leaderboard_stable_descending:
  "map userId (getLeaderboard now n us) = map user_id (slice 0 n (ranking us)) \<and>
   map e_score (getLeaderboard now n us) = map score (slice 0 n (ranking us)) \<and>
   map rank (getLeaderboard now n us) = map (\<lambda>i. int i + 1) [0..<length (getLeaderboard now n us)] \<and>
   slice 0 n (ranking us) =
     (if n < 0 then take (length us - nat (- n)) (ranking us) else take (nat n) (ranking us)) \<and>
   length (getLeaderboard now n us) =
     (if n < 0 then length us - nat (- n) else min (nat n) (length us)) \<and>
   sorted_wrt (\<lambda>a b. e_score b \<le> e_score a) (getLeaderboard now n us) \<and>
   mset (ranking us) = mset (map snd us) \<and>
   filter (\<lambda>u. score u = v) (ranking us) = filter (\<lambda>u. score u = v) (map snd us) \<and>
   getLeaderboard now 0 us = []"
proof -
  have "slice 0 n (ranking us) =
     (if n < 0 then take (length us - nat (- n)) (ranking us) else take (nat n) (ranking us))"
    by (simp add: slice_from_start ranking_sort_key)
  moreover have "getLeaderboard now 0 us = []"
    using getLeaderboard_length [of now 0 us] by simp
  ultimately show ?thesis
    using getLeaderboard_userIds [of now n us] getLeaderboard_scores [of now n us]
      getLeaderboard_ranks [of now n us] getLeaderboard_length [of now n us]
      getLeaderboard_descending [of now n us] ranking_mset [of us] ranking_stable [of v us]
    by blast
qed

theorem leaderboard_stable_descending_witness:
  "map userId (getLeaderboard 20000 2 (users tieState)) = [''user-1'', ''user-2''] \<and>
   map user_id (slice 0 2 (ranking (users tieState))) = [''user-1'', ''user-2''] \<and>
   map user_id (filter (\<lambda>u. score u = 100) (ranking (users tieState))) = [''user-1'', ''user-2''] \<and>
   length (getLeaderboard 20000 (- 1) (users tieState)) = 9"
proof -
  note t = leaderboard_stable_descending [of 20000 2 "users tieState" 100]
  note m = leaderboard_stable_descending [of 20000 "- 1" "users tieState" 100]
  have a: "map userId (getLeaderboard 20000 2 (users tieState)) = [''user-1'', ''user-2'']"
    by (simp add: tie_top2)
  with t have b: "map user_id (slice 0 2 (ranking (users tieState))) = [''user-1'', ''user-2'']"
    by simp
  have "map user_id (filter (\<lambda>u. score u = 100) (map snd (users tieState))) = [''user-1'', ''user-2'']"
    by (simp add: tieState_users)
  with t have c: "map user_id (filter (\<lambda>u. score u = 100) (ranking (users tieState))) = [''user-1'', ''user-2'']"
    by simp
  have "length (users tieState) = 10"
    by (simp add: tieState_users)
  with m have d: "length (getLeaderboard 20000 (- 1) (users tieState)) = 9"
    by simp
  from a b c d show ?thesis by blast
qed

text \<open>
  C5 as the specification states it fails twice over. In the run where Bob reaches the
  score 100 at time 10000 and Alice at 10400, Alice stands before Bob, against the order
  by earliest update; and \<open>getLeaderboard\<close> with \<open>n = - 1\<close> returns nine entries, not
  none.
\<close>

theorem leaderboard_order_counterexample:
  "stamped (lastUpdated Map.empty tieRun issuedState) (getLeaderboard 20000 2 (users tieState)) =
     [(''user-1'', 100, Some 10400), (''user-2'', 100, Some 10000)] \<and>
   \<not> spec_ordered
       (stamped (lastUpdated Map.empty tieRun issuedState) (getLeaderboard 20000 2 (users tieState))) \<and>
   map userId (getLeaderboard 20000 (- 1) (users tieState)) =
     [''user-1'', ''user-2'', ''user-3'', ''user-4'', ''user-5'', ''user-6'', ''user-7'',
      ''user-8'', ''user-9''] \<and>
   getLeaderboard 20000 (- 1) (users tieState) \<noteq> []"
proof -
  have "\<not> spec_ordered [(''user-1'', 100, Some 10400), (''user-2'', 100, Some 10000)]"
    by (simp add: spec_ordered_def spec_before_def)
  moreover have "getLeaderboard 20000 (- 1) (users tieState) \<noteq> []"
    using tie_minus_one by auto
  ultimately show ?thesis
    by (simp add: tie_stamped tie_minus_one)
qed

text \<open>
  C6, as the handlers behave: in a store of at most 100 users, the rank is one plus the
  number of users with a strictly greater score, or with an equal score and an earlier
  place in the store. It is what \<^verbatim>\<open>GET /api/users/me/score\<close> answers and what a
  successful complete-action answers for the updated store. For an id that is not in the
  store the computed rank is 0 and the score route fails on the missing user.
\<close>

theorem rank_counts_store_order:
  assumes "wellFormed (users s)" and "length (users s) \<le> 100"
  shows "rankIn now uid (users s) = storeRank uid (users s) \<and>
     (case map_of (users s) uid of
        None \<Rightarrow> getMyScore now uid s = Inl TypeError
      | Some u \<Rightarrow> getMyScore now uid s =
          Inr \<lparr>m_userId = user_id u, m_username = username u, m_score = score u,
               m_rank = storeRank uid (users s), m_totalActions = totalActions u\<rparr>) \<and>
     (case fst (completeAction now uid body s) of
        Inl e \<Rightarrow> True
      | Inr ok \<Rightarrow> newRank ok = storeRank uid (users (snd (snd (completeAction now uid body s)))))"
proof (intro conjI)
  show r: "rankIn now uid (users s) = storeRank uid (users s)"
    using assms by (rule rankIn_storeRank)
  show "case map_of (users s) uid of
        None \<Rightarrow> getMyScore now uid s = Inl TypeError
      | Some u \<Rightarrow> getMyScore now uid s =
          Inr \<lparr>m_userId = user_id u, m_username = username u, m_score = score u,
               m_rank = storeRank uid (users s), m_totalActions = totalActions u\<rparr>"
    using r by (simp add: getMyScore_def rankIn_def Let_def split: option.splits)
  show "case fst (completeAction now uid body s) of
        Inl e \<Rightarrow> True
      | Inr ok \<Rightarrow> newRank ok = storeRank uid (users (snd (snd (completeAction now uid body s))))"
  proof (cases "fst (completeAction now uid body s)")
    case (Inl e)
    then show ?thesis by simp
  next
    case (Inr ok)
    then have "isOk (fst (completeAction now uid body s))"
      by (simp add: isOk_def)
    then have p: "allPass now uid body s" and u: "map_of (users s) uid \<noteq> None"
      by (simp_all add: completeAction_ok_iff)
    from p u Inr have "newRank ok = rankIn now uid (addScore uid (users s))"
      by (auto simp: allPass_def completeAction_pass Let_def)
    also have "\<dots> = storeRank uid (addScore uid (users s))"
      using assms by (intro rankIn_storeRank wellFormed_addScore) (simp_all add: length_addScore)
    also have "addScore uid (users s) = users (snd (snd (completeAction now uid body s)))"
      using \<open>isOk (fst (completeAction now uid body s))\<close> by (simp add: completeAction_users)
    finally show ?thesis
      using Inr by simp
  qed
qed

theorem rank_counts_store_order_witness:
  "wellFormed (users tieState) \<and> length (users tieState) \<le> 100 \<and>
   storeRank ''user-2'' (users tieState) = 2 \<and>
   getMyScore 20000 ''user-2'' tieState =
     Inr \<lparr>m_userId = ''user-2'', m_username = ''Bob'', m_score = 100, m_rank = 2, m_totalActions = 1\<rparr>"
proof -
  have w: "wellFormed (users tieState)" and l: "length (users tieState) \<le> 100"
    using tie_wellFormed by simp_all
  note r = rank_counts_store_order [OF w l, of 20000 "''user-2''"]
  have "map_of (users tieState) ''user-2'' = Some \<lparr>user_id = ''user-2'', username = ''Bob'',
      password = ''demo123'', score = 100, totalActions = 1\<rparr>"
    by (simp add: tieState_users)
  with r have "getMyScore 20000 ''user-2'' tieState =
     Inr \<lparr>m_userId = ''user-2'', m_username = ''Bob'', m_score = 100,
          m_rank = storeRank ''user-2'' (users tieState), m_totalActions = 1\<rparr>"
    by simp
  then have "storeRank ''user-2'' (users tieState) = 2"
    by (simp add: tie_bob_score)
  with w l show ?thesis
    by (simp add: tie_bob_score)
qed

text \<open>
  C6 as the specification states it fails in the same run: Bob reached the tied score
  before Alice, so no entry has a greater score or an equal score with an earlier update
  and the specification's rank for Bob is 1; the server answers 2.
\<close>

theorem rank_tie_counterexample:
  "stamped (lastUpdated Map.empty tieRun issuedState) (getLeaderboard 20000 2 (users tieState)) =
     [(''user-1'', 100, Some 10400), (''user-2'', 100, Some 10000)] \<and>
   spec_rank (stamped (lastUpdated Map.empty tieRun issuedState)
       (getLeaderboard 20000 2 (users tieState))) ''user-2'' = Some 1 \<and>
   getMyScore 20000 ''user-2'' tieState =
     Inr \<lparr>m_userId = ''user-2'', m_username = ''Bob'', m_score = 100, m_rank = 2, m_totalActions = 1\<rparr>"
  using tie_stamped tie_bob_spec_rank tie_bob_score by (intro conjI)

text \<open>
  C9, as the handler behaves: every successful complete-action emits, within the request,
  one \<^verbatim>\<open>leaderboard:update\<close> carrying the top ten of the updated store, followed by one
  \<^verbatim>\<open>score:update\<close>; a rejected request emits nothing. Nothing is held back or merged:
  a sequence of requests emits as many snapshots as it has successes.
\<close>

theorem every_update_is_broadcast:
  "(case fst (completeAction now uid body s) of
      Inl e \<Rightarrow> fst (snd (completeAction now uid body s)) = []
    | Inr ok \<Rightarrow> fst (snd (completeAction now uid body s)) =
        [LeaderboardUpdate (getLeaderboard now 10 (users (snd (snd (completeAction now uid body s))))) now,
         ScoreUpdate uid (newScore ok - 100) (newScore ok) 100 (newRank ok)]) \<and>
   length (snapshotTimes (fst (snd (completeAll rs s)))) = length (filter isOk (fst (completeAll rs s)))"
  using completeAction_broadcast [of now uid body s] completeAll_snapshots [of rs s]
  by (rule conjI)

theorem every_update_is_broadcast_witness:
  "length (filter isOk (fst (completeAll tieRun issuedState))) = 2 \<and>
   length (snapshotTimes (fst (snd (completeAll tieRun issuedState)))) = 2"
proof -
  have "length (filter isOk (fst (completeAll tieRun issuedState))) = 2"
    by (simp add: tieRun_results isOk_def)
  with every_update_is_broadcast
      [of 10000 "''user-2''" "bobBody (ProofObject (Some 5000))" issuedState tieRun]
  show ?thesis
    by simp
qed

text \<open>
  C9 as the specification states it fails: the two successful updates at times 10000 and
  10400, within one interval of 1000 ms, are sent as two snapshots.
\<close>

theorem broadcast_not_coalesced_counterexample:
  "snapshotTimes (fst (snd (completeAll tieRun issuedState))) = [10000, 10400] \<and>
   \<not> spec_coalesced 1000 (fst (snd (completeAll tieRun issuedState)))"
  by (simp add: spec_coalesced_def tieRun_snapshots)

end
